theory Spec2Isabelle
  imports Complex_Main
begin

section \<open>Preliminaries: insertion-ordered maps and console output\<close>

text \<open>
  A JavaScript \<open>Map\<close> iterates in insertion order; \<open>set\<close> on a key that is present
  replaces the value in place, \<open>set\<close> on a new key appends, \<open>delete\<close> removes the key.
  The model is an association list with these three operations.
\<close>

type_synonym ('k, 'v) js_map = "('k \<times> 'v) list"

definition Map_get :: "('k, 'v) js_map \<Rightarrow> 'k \<Rightarrow> 'v option" where
  "Map_get m k = map_of m k"

fun Map_set :: "'k \<Rightarrow> 'v \<Rightarrow> ('k, 'v) js_map \<Rightarrow> ('k, 'v) js_map" where
  "Map_set k v [] = [(k, v)]"
| "Map_set k v (p # ps) = (if fst p = k then (k, v) # ps else p # Map_set k v ps)"

definition Map_delete :: "'k \<Rightarrow> ('k, 'v) js_map \<Rightarrow> ('k, 'v) js_map" where
  "Map_delete k m = filter (\<lambda>p. fst p \<noteq> k) m"

definition Map_values :: "('k, 'v) js_map \<Rightarrow> 'v list" where
  "Map_values m = map snd m"

text \<open>
  Console output is returned as a list of calls, oldest first. A line records which
  console method was called and a structured payload; the rendering of the payload as
  text (with its ISO timestamp prefix) is not modelled.
\<close>

datatype console_method = ConsoleLog | ConsoleInfo | ConsoleWarn | ConsoleError

section \<open>Numbers and dates\<close>

text \<open>
  A JavaScript number is a finite value, one of the two infinities or \<open>NaN\<close>. Finite
  values are exact rationals here: the rounding and the overflow of doubles are not
  modelled. Arithmetic and comparison follow IEEE 754 on the other values: \<open>NaN\<close> is
  absorbing and compares false with everything, \<open>Infinity - Infinity\<close> and
  \<open>0 * Infinity\<close> are \<open>NaN\<close>.
\<close>

datatype number = Num rat | PosInfinity | NegInfinity | NaN

fun is_finite :: "number \<Rightarrow> bool" where
  "is_finite (Num r) = True"
| "is_finite x = False"

instantiation number :: "{zero, one, plus, minus, times, ord}"
begin

definition zero_number :: number where
  "zero_number = Num 0"

definition one_number :: number where
  "one_number = Num 1"

fun plus_number :: "number \<Rightarrow> number \<Rightarrow> number" where
  "plus_number NaN y = NaN"
| "plus_number x NaN = NaN"
| "plus_number (Num a) (Num b) = Num (a + b)"
| "plus_number PosInfinity NegInfinity = NaN"
| "plus_number NegInfinity PosInfinity = NaN"
| "plus_number PosInfinity y = PosInfinity"
| "plus_number x PosInfinity = PosInfinity"
| "plus_number NegInfinity y = NegInfinity"
| "plus_number x NegInfinity = NegInfinity"

fun negate :: "number \<Rightarrow> number" where
  "negate (Num a) = Num (- a)"
| "negate PosInfinity = NegInfinity"
| "negate NegInfinity = PosInfinity"
| "negate NaN = NaN"

definition minus_number :: "number \<Rightarrow> number \<Rightarrow> number" where
  "minus_number x y = x + negate y"

fun scale :: "rat \<Rightarrow> number \<Rightarrow> number" where
  "scale a PosInfinity = (if a = 0 then NaN else if 0 < a then PosInfinity else NegInfinity)"
| "scale a NegInfinity = (if a = 0 then NaN else if 0 < a then NegInfinity else PosInfinity)"
| "scale a (Num b) = Num (a * b)"
| "scale a NaN = NaN"

fun times_number :: "number \<Rightarrow> number \<Rightarrow> number" where
  "times_number NaN y = NaN"
| "times_number x NaN = NaN"
| "times_number (Num a) y = scale a y"
| "times_number x (Num b) = scale b x"
| "times_number PosInfinity PosInfinity = PosInfinity"
| "times_number NegInfinity NegInfinity = PosInfinity"
| "times_number PosInfinity NegInfinity = NegInfinity"
| "times_number NegInfinity PosInfinity = NegInfinity"

fun less_eq_number :: "number \<Rightarrow> number \<Rightarrow> bool" where
  "less_eq_number NaN y = False"
| "less_eq_number x NaN = False"
| "less_eq_number (Num a) (Num b) = (a \<le> b)"
| "less_eq_number NegInfinity y = True"
| "less_eq_number x PosInfinity = True"
| "less_eq_number x y = False"

definition less_number :: "number \<Rightarrow> number \<Rightarrow> bool" where
  "less_number x y = (x \<le> y \<and> \<not> y \<le> x)"

instance ..

end

text \<open>\<open>Math.min\<close> of two numbers: \<open>NaN\<close> when either is \<open>NaN\<close>.\<close>

fun Math_min :: "number \<Rightarrow> number \<Rightarrow> number" where
  "Math_min NaN y = NaN"
| "Math_min x NaN = NaN"
| "Math_min x y = (if x \<le> y then x else y)"

text \<open>
  A \<open>Date\<close> holds a time value, whole milliseconds within 8.64e15 of the epoch, or is an
  Invalid Date. \<open>new Date(v)\<close> clips the number \<open>v\<close>: a value that is not finite or lies
  outside the range gives an Invalid Date, any other is truncated towards zero.
\<close>

datatype Date = Valid int | Invalid

definition to_integer :: "rat \<Rightarrow> int" where
  "to_integer r = (if 0 \<le> r then \<lfloor>r\<rfloor> else \<lceil>r\<rceil>)"

fun new_Date :: "number \<Rightarrow> Date" where
  "new_Date (Num r) = (if \<bar>r\<bar> \<le> 8640000000000000 then Valid (to_integer r) else Invalid)"
| "new_Date x = Invalid"

section \<open>Agent tracker (lib/agent-tracker.ts)\<close>

text \<open>
  Every operation takes the clock reading \<open>now\<close> of its call, a value of \<open>Date.now()\<close>
  in whole milliseconds, as its first argument. \<open>createdAt\<close> and \<open>lastActivityAt\<close> are
  only ever set to \<open>new Date()\<close> and hold that reading; \<open>ttlExpiresAt\<close> is computed and
  is a \<open>Date\<close>, \<open>None\<close> for \<open>null\<close>. TTLs are numbers of seconds.
\<close>

record AgentActivity =
  dispatchId :: string
  roomName :: string
  agentName :: string
  createdAt :: int
  lastActivityAt :: int
  participantCount :: int
  ttlExpiresAt :: "Date option"

record AgentTracker =
  activities :: "(string, AgentActivity) js_map"
  defaultTtlSeconds :: number

text \<open>
  The payloads of the tracker's console lines, with the values interpolated into each:
  dispatch id, room, then participants, agent, TTL seconds or expiry as the line has them.
\<close>

datatype tracker_line =
    UpdatedActivity string string int
  | StartedTracking string string string
  | CannotMarkUnknown string
  | MarkedForCleanup string string number int
  | CancelledCleanup string string
  | RemovedFromTracking string string

type_synonym tracker_console = "(console_method \<times> tracker_line) list"

text \<open>The constructor: \<open>new AgentTracker(ttlSeconds = 300)\<close>.\<close>

definition new_AgentTracker :: "number option \<Rightarrow> AgentTracker" where
  "new_AgentTracker ttlSeconds =
     \<lparr>activities = [],
      defaultTtlSeconds = (case ttlSeconds of None \<Rightarrow> Num 300 | Some t \<Rightarrow> t)\<rparr>"

text \<open>
  \<open>trackActivity(dispatchId, roomName, agentName = 'task-assistant', participantCount = 1)\<close>:
  the two defaulted parameters are options, \<open>None\<close> for an omitted argument.
\<close>

definition trackActivity ::
  "int \<Rightarrow> string \<Rightarrow> string \<Rightarrow> string option \<Rightarrow> int option \<Rightarrow> AgentTracker
     \<Rightarrow> AgentTracker \<times> tracker_console" where
  "trackActivity now did room agentOpt countOpt t =
     (let agent = (case agentOpt of None \<Rightarrow> ''task-assistant'' | Some a \<Rightarrow> a);
          cnt = (case countOpt of None \<Rightarrow> 1 | Some c \<Rightarrow> c)
      in case Map_get (activities t) did of
           Some existing \<Rightarrow>
             (t\<lparr>activities := Map_set did
                   (existing\<lparr>lastActivityAt := now, participantCount := cnt,
                              ttlExpiresAt := None\<rparr>) (activities t)\<rparr>,
              [(ConsoleLog, UpdatedActivity did room cnt)])
         | None \<Rightarrow>
             (t\<lparr>activities := Map_set did
                   \<lparr>dispatchId = did, roomName = room, agentName = agent,
                    createdAt = now, lastActivityAt = now, participantCount = cnt,
                    ttlExpiresAt = None\<rparr> (activities t)\<rparr>,
              [(ConsoleLog, StartedTracking did room agent)]))"

text \<open>\<open>getActivity\<close>: the first entry, in insertion order, with this room and agent.\<close>

definition getActivity :: "string \<Rightarrow> string option \<Rightarrow> AgentTracker \<Rightarrow> AgentActivity option" where
  "getActivity room agentOpt t =
     (let agent = (case agentOpt of None \<Rightarrow> ''task-assistant'' | Some a \<Rightarrow> a)
      in find (\<lambda>a. roomName a = room \<and> agentName a = agent) (Map_values (activities t)))"

definition getActivityByDispatchId :: "string \<Rightarrow> AgentTracker \<Rightarrow> AgentActivity option" where
  "getActivityByDispatchId did t = Map_get (activities t) did"

text \<open>
  \<open>markForCleanup(dispatchId, ttlSeconds?)\<close>: \<open>ttlSeconds ?? defaultTtlSeconds\<close> takes the
  default only for an omitted argument (an explicit 0 is kept). The expiry is
  \<open>new Date(Date.now() + ttl * 1000)\<close>. Both fields are written before the log line is
  built; building it calls \<open>expiresAt.toISOString()\<close>, which throws a \<open>RangeError\<close> on an
  Invalid Date. The third component of the result is that exception, if any; the state
  returned with it has the two writes.
\<close>

datatype exception = RangeError string

definition invalid_time_value :: string where
  "invalid_time_value = ''Invalid time value''"

definition markForCleanup ::
  "int \<Rightarrow> string \<Rightarrow> number option \<Rightarrow> AgentTracker
     \<Rightarrow> AgentTracker \<times> tracker_console \<times> exception option" where
  "markForCleanup now did ttlSeconds t =
     (case Map_get (activities t) did of
        None \<Rightarrow> (t, [(ConsoleWarn, CannotMarkUnknown did)], None)
      | Some activity \<Rightarrow>
          (let ttl = (case ttlSeconds of None \<Rightarrow> defaultTtlSeconds t | Some s \<Rightarrow> s);
               expiresAt = new_Date (Num (rat_of_int now) + ttl * Num 1000);
               t1 = t\<lparr>activities := Map_set did
                      (activity\<lparr>ttlExpiresAt := Some expiresAt, participantCount := 0\<rparr>)
                      (activities t)\<rparr>
           in case expiresAt of
                Invalid \<Rightarrow> (t1, [], Some (RangeError invalid_time_value))
              | Valid e \<Rightarrow>
                  (t1, [(ConsoleLog, MarkedForCleanup did (roomName activity) ttl e)], None)))"

definition cancelCleanup ::
  "int \<Rightarrow> string \<Rightarrow> AgentTracker \<Rightarrow> AgentTracker \<times> tracker_console" where
  "cancelCleanup now did t =
     (case Map_get (activities t) did of
        None \<Rightarrow> (t, [])
      | Some activity \<Rightarrow>
          (let hadTTL = (ttlExpiresAt activity \<noteq> None)
           in (t\<lparr>activities := Map_set did
                    (activity\<lparr>ttlExpiresAt := None, lastActivityAt := now\<rparr>)
                    (activities t)\<rparr>,
               if hadTTL then [(ConsoleLog, CancelledCleanup did (roomName activity))]
               else [])))"

text \<open>
  \<open>activity.ttlExpiresAt && activity.ttlExpiresAt <= now\<close>: a \<open>Date\<close> object is truthy
  also when invalid, and an Invalid Date compares false.
\<close>

definition is_expired :: "int \<Rightarrow> AgentActivity \<Rightarrow> bool" where
  "is_expired now a =
     (case ttlExpiresAt a of None \<Rightarrow> False | Some Invalid \<Rightarrow> False | Some (Valid e) \<Rightarrow> e \<le> now)"

definition getExpiredAgents :: "int \<Rightarrow> AgentTracker \<Rightarrow> AgentActivity list" where
  "getExpiredAgents now t = filter (is_expired now) (Map_values (activities t))"

definition removeAgent :: "string \<Rightarrow> AgentTracker \<Rightarrow> AgentTracker \<times> tracker_console" where
  "removeAgent did t =
     (t\<lparr>activities := Map_delete did (activities t)\<rparr>,
      case Map_get (activities t) did of
        None \<Rightarrow> []
      | Some activity \<Rightarrow> [(ConsoleLog, RemovedFromTracking did (roomName activity))])"

definition getAllActivities :: "AgentTracker \<Rightarrow> AgentActivity list" where
  "getAllActivities t = Map_values (activities t)"

definition getActiveCount :: "AgentTracker \<Rightarrow> nat" where
  "getActiveCount t = length (activities t)"

definition clear :: "AgentTracker \<Rightarrow> AgentTracker" where
  "clear t = t\<lparr>activities := []\<rparr>"

subsection \<open>Reachable tracker states\<close>

text \<open>
  A reachable state is what a fresh tracker becomes under any sequence of calls of its
  mutating methods, each at its own clock reading. A call of \<open>markForCleanup\<close> that
  throws leaves the state it had written, and the history goes on from there.
\<close>

datatype tracker_call =
    TrackActivity int string string "string option" "int option"
  | MarkForCleanup int string "number option"
  | CancelCleanup int string
  | RemoveAgent string
  | Clear

fun tracker_step :: "tracker_call \<Rightarrow> AgentTracker \<Rightarrow> AgentTracker" where
  "tracker_step (TrackActivity now did room agent cnt) t = fst (trackActivity now did room agent cnt t)"
| "tracker_step (MarkForCleanup now did ttl) t = fst (markForCleanup now did ttl t)"
| "tracker_step (CancelCleanup now did) t = fst (cancelCleanup now did t)"
| "tracker_step (RemoveAgent did) t = fst (removeAgent did t)"
| "tracker_step Clear t = clear t"

definition tracker_run :: "tracker_call list \<Rightarrow> AgentTracker \<Rightarrow> AgentTracker" where
  "tracker_run calls t = fold tracker_step calls t"

text \<open>The property of the data model: no two entries share room and agent name.\<close>

definition one_per_room_agent :: "AgentTracker \<Rightarrow> bool" where
  "one_per_room_agent t =
     distinct (map (\<lambda>a. (roomName a, agentName a)) (Map_values (activities t)))"

text \<open>What the map gives by construction: no two entries share a dispatch id.\<close>

definition one_per_dispatch :: "AgentTracker \<Rightarrow> bool" where
  "one_per_dispatch t = distinct (map dispatchId (Map_values (activities t)))"

text \<open>
  The dispatch ids that \<open>trackActivity\<close> calls of a history name for each room and agent:
  a history is consistent when no room and agent are tracked under two dispatch ids.
\<close>

fun track_key :: "tracker_call \<Rightarrow> (string \<times> string \<times> string) list" where
  "track_key (TrackActivity now did room agent cnt) =
     [(did, room, (case agent of None \<Rightarrow> ''task-assistant'' | Some a \<Rightarrow> a))]"
| "track_key c = []"

definition track_keys :: "tracker_call list \<Rightarrow> (string \<times> string \<times> string) list" where
  "track_keys calls = concat (map track_key calls)"

definition same_dispatch_per_pair :: "tracker_call list \<Rightarrow> bool" where
  "same_dispatch_per_pair calls =
     (\<forall>x \<in> set (track_keys calls). \<forall>y \<in> set (track_keys calls).
        snd x = snd y \<longrightarrow> fst x = fst y)"

definition entry_ok :: "(string \<times> string \<times> string) set \<Rightarrow> string \<times> AgentActivity \<Rightarrow> bool" where
  "entry_ok S p =
     (dispatchId (snd p) = fst p \<and> (fst p, roomName (snd p), agentName (snd p)) \<in> S)"

definition tracker_inv :: "(string \<times> string \<times> string) set \<Rightarrow> AgentTracker \<Rightarrow> bool" where
  "tracker_inv S t =
     (distinct (map fst (activities t)) \<and> (\<forall>p \<in> set (activities t). entry_ok S p))"

section \<open>The external dispatch service\<close>

text \<open>
  The LiveKit \<open>AgentDispatchClient\<close> is a third-party service. Its operations are
  parameters of the model: each takes the state \<open>'w\<close> of the service and returns the new
  state with either the value the call resolves to (\<open>Inr\<close>) or the message of the error
  it rejects with (\<open>Inl\<close>). Every call issued is also recorded, in order.
\<close>

datatype json =
    JNull
  | JBool bool
  | JNum int
  | JString string
  | JArray "json list"
  | JObject "(string \<times> json) list"

record client =
  host :: string
  key :: string
  secret :: string

datatype api_call =
    CreateDispatch string string json
  | DeleteDispatch string string
  | ListDispatch string

type_synonym 'w createDispatch_op =
  "client \<Rightarrow> string \<Rightarrow> string \<Rightarrow> json \<Rightarrow> 'w \<Rightarrow> (string + string) \<times> 'w"

type_synonym 'w deleteDispatch_op =
  "client \<Rightarrow> string \<Rightarrow> string \<Rightarrow> 'w \<Rightarrow> (string + unit) \<times> 'w"

datatype worker_line =
    NoExpiredAgents
  | FoundExpired nat
  | NoLongerExpired string
  | TtlExtended string
  | DeletingExpired string string int
  | CleanedUp string string int
  | FailedCleanup string string string
  | CleanupCompleted nat

datatype route_line =
    CredentialsNotConfigured
  | CreatingDispatch string
  | DispatchedSuccessfully string
  | ErrorDispatching string

datatype line =
    Tracker tracker_line
  | Worker worker_line
  | Route route_line

text \<open>
  The state of the server process: the module-level tracker singleton
  (\<open>agentTracker\<close>), the external service, the calls issued to it and the console.
\<close>

record 'w proc =
  tracker :: AgentTracker
  service :: 'w
  api_calls :: "api_call list"
  console :: "(console_method \<times> line) list"

definition emit :: "(console_method \<times> line) list \<Rightarrow> 'w proc \<Rightarrow> 'w proc" where
  "emit ls p = p\<lparr>console := console p @ ls\<rparr>"

text \<open>
  \<open>String.prototype.replace\<close> with a string pattern replaces the first occurrence only.
  The client is built for the host
  \<open>wsUrl.replace('wss://', 'https://').replace('ws://', 'http://')\<close>.
\<close>

fun replace_first :: "string \<Rightarrow> string \<Rightarrow> string \<Rightarrow> string" where
  "replace_first pat rep [] = (if pat = [] then rep else [])"
| "replace_first pat rep (c # cs) =
     (if take (length pat) (c # cs) = pat then rep @ drop (length pat) (c # cs)
      else c # replace_first pat rep cs)"

definition livekitHost :: "string \<Rightarrow> string" where
  "livekitHost wsUrl = replace_first ''ws://'' ''http://'' (replace_first ''wss://'' ''https://'' wsUrl)"

section \<open>Cleanup worker (lib/cleanup-worker.ts)\<close>

text \<open>
  \<open>cleanupAgent\<close> re-reads the tracker entry of the scanned agent, skips it when the
  entry is gone, has no TTL or has a TTL after \<open>now\<close>, and otherwise awaits the external
  deletion. \<open>removeAgent\<close> runs after the await only when the deletion resolved; a
  rejection is caught and logged. An Invalid Date passes both tests (it is an object, and
  it compares false); the line logged before the deletion then calls its
  \<open>toISOString()\<close>, which throws inside the \<open>try\<close>: the failure is logged and nothing is
  deleted. The await is one step of the model: what other tasks do to the tracker while
  the worker is suspended in it is not part of \<open>cleanupAgent\<close>.
\<close>

definition cleanupAgent ::
  "'w deleteDispatch_op \<Rightarrow> client \<Rightarrow> int \<Rightarrow> AgentActivity \<Rightarrow> 'w proc \<Rightarrow> 'w proc" where
  "cleanupAgent deleteDispatch cl now agent p =
     (case getActivityByDispatchId (dispatchId agent) (tracker p) of
        None \<Rightarrow> emit [(ConsoleLog, Worker (NoLongerExpired (dispatchId agent)))] p
      | Some currentActivity \<Rightarrow>
          (case ttlExpiresAt currentActivity of
             None \<Rightarrow> emit [(ConsoleLog, Worker (NoLongerExpired (dispatchId agent)))] p
           | Some Invalid \<Rightarrow>
               emit [(ConsoleError, Worker (FailedCleanup (dispatchId agent)
                        (roomName agent) invalid_time_value))] p
           | Some (Valid expires) \<Rightarrow>
               if expires > now
               then emit [(ConsoleLog, Worker (TtlExtended (dispatchId agent)))] p
               else
                 (let p1 = emit [(ConsoleLog, Worker (DeletingExpired (dispatchId agent)
                                     (roomName agent) expires))] p;
                      (outcome, w) = deleteDispatch cl (dispatchId agent) (roomName agent)
                                       (service p1);
                      p2 = p1\<lparr>service := w,
                              api_calls := api_calls p1
                                 @ [DeleteDispatch (dispatchId agent) (roomName agent)]\<rparr>
                  in case outcome of
                       Inl message \<Rightarrow>
                         emit [(ConsoleError, Worker (FailedCleanup (dispatchId agent)
                                  (roomName agent) message))] p2
                     | Inr u \<Rightarrow>
                         (let (t, ls) = removeAgent (dispatchId agent) (tracker p2)
                          in emit (map (\<lambda>l. (fst l, Tracker (snd l))) ls
                                   @ [(ConsoleLog, Worker (CleanedUp (dispatchId agent)
                                         (roomName agent) expires))])
                               (p2\<lparr>tracker := t\<rparr>)))))"

text \<open>
  \<open>runCleanup\<close> scans once, at \<open>now\<close>, and processes the scanned agents in order. The
  first is processed in the same turn of the event loop as the scan. Each later one is
  processed after an await, so it comes with an entry of the schedule: the tracker calls
  other tasks made in between and the clock reading of its processing; when the schedule
  is shorter than the scan, no calls and the scan's clock reading are used.
\<close>

fun cleanupLoop ::
  "'w deleteDispatch_op \<Rightarrow> client \<Rightarrow> int \<Rightarrow> (tracker_call list \<times> int) list
     \<Rightarrow> AgentActivity list \<Rightarrow> 'w proc \<Rightarrow> 'w proc" where
  "cleanupLoop deleteDispatch cl now sched [] p = p"
| "cleanupLoop deleteDispatch cl now [] (agent # agents) p =
     cleanupLoop deleteDispatch cl now [] agents (cleanupAgent deleteDispatch cl now agent p)"
| "cleanupLoop deleteDispatch cl now ((others, tm) # sched) (agent # agents) p =
     cleanupLoop deleteDispatch cl now sched agents
       (cleanupAgent deleteDispatch cl tm agent
          (p\<lparr>tracker := tracker_run others (tracker p)\<rparr>))"

definition runCleanup ::
  "'w deleteDispatch_op \<Rightarrow> client \<Rightarrow> int \<Rightarrow> (tracker_call list \<times> int) list
     \<Rightarrow> 'w proc \<Rightarrow> 'w proc" where
  "runCleanup deleteDispatch cl now sched p =
     (case getExpiredAgents now (tracker p) of
        [] \<Rightarrow> emit [(ConsoleLog, Worker NoExpiredAgents)] p
      | agent # agents \<Rightarrow>
          emit [(ConsoleLog, Worker (CleanupCompleted (length (agent # agents))))]
            (cleanupLoop deleteDispatch cl now sched agents
               (cleanupAgent deleteDispatch cl now agent
                  (emit [(ConsoleLog, Worker (FoundExpired (length (agent # agents))))] p))))"

section \<open>Dispatch route (app/api/livekit/dispatch-agent/route.ts)\<close>

text \<open>
  JavaScript truthiness of a value read from the parsed body, \<open>None\<close> being
  \<open>undefined\<close>; and a field of the destructured body.
\<close>

fun truthy :: "json option \<Rightarrow> bool" where
  "truthy None = False"
| "truthy (Some JNull) = False"
| "truthy (Some (JBool b)) = b"
| "truthy (Some (JNum n)) = (n \<noteq> 0)"
| "truthy (Some (JString s)) = (s \<noteq> [])"
| "truthy (Some (JArray xs)) = True"
| "truthy (Some (JObject fs)) = True"

fun field :: "json \<Rightarrow> string \<Rightarrow> json option" where
  "field (JObject fs) name = map_of fs name"
| "field j name = None"

definition or_default :: "json option \<Rightarrow> json \<Rightarrow> json" where
  "or_default v d = (if truthy v then the v else d)"

record env =
  LIVEKIT_API_KEY :: "string option"
  LIVEKIT_API_SECRET :: "string option"
  NEXT_PUBLIC_LIVEKIT_URL :: "string option"

definition unset :: "string option \<Rightarrow> bool" where
  "unset v = (case v of None \<Rightarrow> True | Some s \<Rightarrow> s = [])"

record http_response =
  status :: nat
  body :: "(string \<times> json) list"

text \<open>The message \<open>Missing or invalid "roomName" parameter\<close>; character 34 is the double quote.\<close>

definition invalid_roomName :: string where
  "invalid_roomName =
     ''Missing or invalid '' @ [char_of (34::nat)] @ ''roomName'' @ [char_of (34::nat)] @ '' parameter''"

definition AGENT_NAME :: string where
  "AGENT_NAME = ''task-assistant''"

definition failed_to_dispatch :: "string \<Rightarrow> http_response" where
  "failed_to_dispatch message =
     \<lparr>status = 500,
      body = [(''error'', JString ''Failed to dispatch agent''), (''details'', JString message)]\<rparr>"

text \<open>
  \<open>POST\<close>. The request body is \<open>Unparsable m\<close> when \<open>req.json()\<close> rejects with message
  \<open>m\<close> and the parsed value otherwise; destructuring \<open>null\<close> throws a \<open>TypeError\<close>, whose
  engine-specific message is the constant below. Everything thrown inside the handler is
  caught by its one \<open>try\<close> and answered with status 500. The metadata object is passed
  as it is, its \<open>JSON.stringify\<close> is not modelled.
\<close>

datatype request_body = Unparsable string | Parsed json

definition destructure_null_message :: string where
  "destructure_null_message = ''Cannot destructure property of null''"

definition dispatch_client :: "env \<Rightarrow> client" where
  "dispatch_client e =
     \<lparr>host = livekitHost (the (NEXT_PUBLIC_LIVEKIT_URL e)),
      key = the (LIVEKIT_API_KEY e),
      secret = the (LIVEKIT_API_SECRET e)\<rparr>"

definition dispatch_metadata :: "json \<Rightarrow> json" where
  "dispatch_metadata b =
     JObject
       [(''type'', JString ''voice-assistant''),
        (''features'', JArray [JString ''task-management'', JString ''voice-commands'']),
        (''timezone'', or_default (field b ''timezone'') (JString ''UTC'')),
        (''timezoneOffset'', or_default (field b ''timezoneOffset'') (JNum 0))]"

definition POST ::
  "'w createDispatch_op \<Rightarrow> env \<Rightarrow> request_body \<Rightarrow> 'w proc \<Rightarrow> http_response \<times> 'w proc" where
  "POST createDispatch e reqBody p =
     (case reqBody of
        Unparsable message \<Rightarrow>
          (failed_to_dispatch message,
           emit [(ConsoleError, Route (ErrorDispatching message))] p)
      | Parsed JNull \<Rightarrow>
          (failed_to_dispatch destructure_null_message,
           emit [(ConsoleError, Route (ErrorDispatching destructure_null_message))] p)
      | Parsed b \<Rightarrow>
          (case field b ''roomName'' of
             Some (JString room) \<Rightarrow>
               if room = [] then
                 (\<lparr>status = 400, body = [(''error'', JString invalid_roomName)]\<rparr>, p)
               else if unset (LIVEKIT_API_KEY e) \<or> unset (LIVEKIT_API_SECRET e)
                       \<or> unset (NEXT_PUBLIC_LIVEKIT_URL e) then
                 (\<lparr>status = 500,
                   body = [(''error'',
                            JString ''Server misconfigured: Missing LiveKit credentials'')]\<rparr>,
                  emit [(ConsoleError, Route CredentialsNotConfigured)] p)
               else
                 (let agentDispatchClient = dispatch_client e;
                      metadata = dispatch_metadata b;
                      p1 = emit [(ConsoleLog, Route (CreatingDispatch room))] p;
                      (outcome, w) =
                         createDispatch agentDispatchClient room AGENT_NAME metadata (service p1);
                      p2 = p1\<lparr>service := w,
                              api_calls := api_calls p1
                                 @ [CreateDispatch room AGENT_NAME metadata]\<rparr>
                  in case outcome of
                       Inl message \<Rightarrow>
                         (failed_to_dispatch message,
                          emit [(ConsoleError, Route (ErrorDispatching message))] p2)
                     | Inr did \<Rightarrow>
                         (\<lparr>status = 200,
                           body = [(''success'', JBool True), (''dispatchId'', JString did)]\<rparr>,
                          emit [(ConsoleLog, Route (DispatchedSuccessfully did))] p2))
           | other \<Rightarrow>
               (\<lparr>status = 400, body = [(''error'', JString invalid_roomName)]\<rparr>, p)))"

text \<open>
  A request that passes the handler's checks: a non-empty string \<open>roomName\<close> and the
  three credentials set.
\<close>

definition accepted_request :: "env \<Rightarrow> json \<Rightarrow> string \<Rightarrow> bool" where
  "accepted_request e b room =
     (field b ''roomName'' = Some (JString room) \<and> room \<noteq> [] \<and>
      \<not> unset (LIVEKIT_API_KEY e) \<and> \<not> unset (LIVEKIT_API_SECRET e) \<and>
      \<not> unset (NEXT_PUBLIC_LIVEKIT_URL e))"

text \<open>What the claims about the connect operation speak of.\<close>

definition create_calls :: "'w proc \<Rightarrow> api_call list" where
  "create_calls p = filter (\<lambda>c. case c of CreateDispatch r a m \<Rightarrow> True | _ \<Rightarrow> False) (api_calls p)"

definition reports_reused :: "http_response \<Rightarrow> bool" where
  "reports_reused r = (map_of (body r) ''reused'' = Some (JBool True))"

text \<open>
  A small instance of the external service for examples: the registered dispatches, as
  pairs of id and room, and the ids it will hand out next; creation is rejected when none
  is left, deletion when the dispatch is not registered.
\<close>

record registry =
  dispatches :: "(string \<times> string) list"
  fresh_ids :: "string list"

definition registry_create :: "registry createDispatch_op" where
  "registry_create cl room agent metadata w =
     (case fresh_ids w of
        [] \<Rightarrow> (Inl ''service unavailable'', w)
      | i # ids \<Rightarrow> (Inr i, w\<lparr>dispatches := dispatches w @ [(i, room)], fresh_ids := ids\<rparr>))"

definition registry_delete :: "registry deleteDispatch_op" where
  "registry_delete cl did room w =
     (if (did, room) \<in> set (dispatches w)
      then (Inr (), w\<lparr>dispatches := removeAll (did, room) (dispatches w)\<rparr>)
      else (Inl ''dispatch not found'', w))"

definition registry_list :: "string \<Rightarrow> registry \<Rightarrow> string list" where
  "registry_list room w = map fst (filter (\<lambda>d. snd d = room) (dispatches w))"

text \<open>Example inputs: configured credentials, a request for room \<open>R1\<close>, a fresh process.\<close>

definition example_env :: env where
  "example_env =
     \<lparr>LIVEKIT_API_KEY = Some ''key'', LIVEKIT_API_SECRET = Some ''secret'',
      NEXT_PUBLIC_LIVEKIT_URL = Some ''wss://lk.example''\<rparr>"

definition connect_R1 :: json where
  "connect_R1 = JObject [(''roomName'', JString ''R1'')]"

definition fresh_proc :: "'w \<Rightarrow> 'w proc" where
  "fresh_proc w = \<lparr>tracker = new_AgentTracker None, service = w, api_calls = [], console = []\<rparr>"

section \<open>Log rate limiter (log-rate-limiter.ts)\<close>

text \<open>
  The rate, the capacity and the token count are numbers; clock readings are whole
  milliseconds. The constructor accepts any number: the module's singleton passes it
  \<open>parseInt\<close> of \<open>LOG_RATE_LIMIT\<close>, which is \<open>NaN\<close> for a text that is not numeric.
\<close>

datatype LogLevel = ERROR | WARN | INFO | DEBUG

record AggregatedMessage =
  count :: nat
  firstSeen :: int
  lastSeen :: int
  level :: LogLevel

record LogRateLimiter =
  maxLogsPerSecond :: number
  bucketSize :: number
  tokens :: number
  lastRefillTime :: int
  droppedCount :: nat
  droppedByLevel :: "(LogLevel, nat) js_map"
  lastDroppedReportTime :: int
  messageAggregation :: "(string, AggregatedMessage) js_map"
  lastAggregationCleanup :: int

definition droppedReportIntervalMs :: int where
  "droppedReportIntervalMs = 60000"

definition aggregationWindowMs :: int where
  "aggregationWindowMs = 60000"

text \<open>
  The limiter's console lines: a message passed on with its level prefix and arguments,
  the summary of an aggregated key (level, count, window in seconds, key) and the report
  of dropped lines (total, interval in seconds, the levels with a nonzero count).
\<close>

datatype limiter_line =
    Direct LogLevel string "string list"
  | AggregatedSummary LogLevel nat int string
  | DroppedReport nat int "(LogLevel \<times> nat) list"

type_synonym limiter_console = "(console_method \<times> limiter_line) list"

text \<open>The constructor, called at clock reading \<open>now\<close>: \<open>new LogRateLimiter(maxLogsPerSecond = 400)\<close>.\<close>

definition new_LogRateLimiter :: "int \<Rightarrow> number option \<Rightarrow> LogRateLimiter" where
  "new_LogRateLimiter now rate =
     (let r = (case rate of None \<Rightarrow> Num 400 | Some x \<Rightarrow> x)
      in \<lparr>maxLogsPerSecond = r, bucketSize = r, tokens = r, lastRefillTime = now,
          droppedCount = 0,
          droppedByLevel = [(ERROR, 0), (WARN, 0), (INFO, 0), (DEBUG, 0)],
          lastDroppedReportTime = now,
          messageAggregation = [],
          lastAggregationCleanup = now\<rparr>)"

definition refillTokens :: "int \<Rightarrow> LogRateLimiter \<Rightarrow> LogRateLimiter" where
  "refillTokens now l =
     (let elapsedMs = now - lastRefillTime l;
          elapsedSeconds = Num (rat_of_int elapsedMs / 1000);
          tokensToAdd = elapsedSeconds * maxLogsPerSecond l
      in l\<lparr>tokens := Math_min (bucketSize l) (tokens l + tokensToAdd),
           lastRefillTime := now\<rparr>)"

text \<open>
  The aggregation patterns are case-insensitive searches for a fixed phrase. Case is
  folded on the letters A to Z only, as the \<open>i\<close> flag does for a pattern of ASCII letters.
\<close>

definition lower_char :: "char \<Rightarrow> char" where
  "lower_char c =
     (case map_of (zip ''ABCDEFGHIJKLMNOPQRSTUVWXYZ'' ''abcdefghijklmnopqrstuvwxyz'') c of
        None \<Rightarrow> c | Some d \<Rightarrow> d)"

fun contains :: "string \<Rightarrow> string \<Rightarrow> bool" where
  "contains pat [] = (pat = [])"
| "contains pat (c # cs) = (take (length pat) (c # cs) = pat \<or> contains pat cs)"

definition test_i :: "string \<Rightarrow> string \<Rightarrow> bool" where
  "test_i phrase message = contains phrase (map lower_char message)"

definition aggregationPatterns :: "(string \<Rightarrow> bool) list" where
  "aggregationPatterns =
     [test_i ''process memory usage'',
      test_i ''connection event'',
      (\<lambda>m. test_i ''participant connected'' m \<or> test_i ''participant disconnected'' m),
      test_i ''health check'']"

definition shouldAggregate :: "string \<Rightarrow> bool" where
  "shouldAggregate message = list_ex (\<lambda>pattern. pattern message) aggregationPatterns"

text \<open>
  \<open>getAggregationKey\<close>: every maximal run of digits becomes \<open>N\<close>, then every match of
  \<open>\d{4}-\d{2}-\d{2}T\d{2}:\d{2}:\d{2}\<close>, scanning from the left, becomes \<open>TIMESTAMP\<close>, then
  the first 100 characters are kept.
\<close>

definition is_digit :: "char \<Rightarrow> bool" where
  "is_digit c = (c \<in> set ''0123456789'')"

function replace_digit_runs :: "string \<Rightarrow> string" where
  "replace_digit_runs [] = []"
| "replace_digit_runs (c # cs) =
     (if is_digit c then CHR ''N'' # replace_digit_runs (dropWhile is_digit cs)
      else c # replace_digit_runs cs)"
  by pat_completeness auto
termination
  by (relation "measure length") (auto simp: length_dropWhile_le less_Suc_eq_le)

text \<open>In the template \<open>d\<close> stands for a digit, every other character for itself.\<close>

definition timestamp_template :: string where
  "timestamp_template = ''dddd-dd-ddTdd:dd:dd''"

definition timestamp_at :: "string \<Rightarrow> bool" where
  "timestamp_at s =
     (length timestamp_template \<le> length s \<and>
      list_all2 (\<lambda>t c. if t = CHR ''d'' then is_digit c else c = t)
        timestamp_template (take (length timestamp_template) s))"

function replace_timestamps :: "string \<Rightarrow> string" where
  "replace_timestamps [] = []"
| "replace_timestamps (c # cs) =
     (if timestamp_at (c # cs)
      then ''TIMESTAMP'' @ replace_timestamps (drop (length timestamp_template) (c # cs))
      else c # replace_timestamps cs)"
  by pat_completeness auto
termination
  by (relation "measure length") (auto simp: timestamp_template_def)

definition getAggregationKey :: "string \<Rightarrow> string" where
  "getAggregationKey message = take 100 (replace_timestamps (replace_digit_runs message))"

definition aggregateMessage :: "int \<Rightarrow> LogLevel \<Rightarrow> string \<Rightarrow> LogRateLimiter \<Rightarrow> LogRateLimiter" where
  "aggregateMessage now lvl message l =
     (let k = getAggregationKey message
      in case Map_get (messageAggregation l) k of
           Some existing \<Rightarrow>
             l\<lparr>messageAggregation :=
                 Map_set k (existing\<lparr>count := count existing + 1, lastSeen := now\<rparr>)
                   (messageAggregation l)\<rparr>
         | None \<Rightarrow>
             l\<lparr>messageAggregation :=
                 Map_set k \<lparr>count = 1, firstSeen = now, lastSeen = now, level = lvl\<rparr>
                   (messageAggregation l)\<rparr>)"

definition summary_lines :: "(string, AggregatedMessage) js_map \<Rightarrow> limiter_console" where
  "summary_lines m =
     map (\<lambda>(k, d). (ConsoleLog, AggregatedSummary (level d) (count d) (aggregationWindowMs div 1000) k))
       (filter (\<lambda>(k, d). count d > 1) m)"

definition flushAggregatedMessages :: "int \<Rightarrow> LogRateLimiter \<Rightarrow> LogRateLimiter \<times> limiter_console" where
  "flushAggregatedMessages now l =
     (if now - lastAggregationCleanup l < aggregationWindowMs then (l, [])
      else (l\<lparr>lastAggregationCleanup := now, messageAggregation := []\<rparr>,
            summary_lines (messageAggregation l)))"

definition shouldLog :: "int \<Rightarrow> LogLevel \<Rightarrow> LogRateLimiter \<Rightarrow> LogRateLimiter \<times> bool" where
  "shouldLog now lvl l0 =
     (let l = refillTokens now l0
      in if lvl = ERROR then
           (if tokens l \<ge> 1 then (l\<lparr>tokens := tokens l - 1\<rparr>, True) else (l, True))
         else if tokens l \<ge> 1 then (l\<lparr>tokens := tokens l - 1\<rparr>, True)
         else
           (let currentCount = (case Map_get (droppedByLevel l) lvl of None \<Rightarrow> 0 | Some n \<Rightarrow> n)
            in (l\<lparr>droppedCount := droppedCount l + 1,
                  droppedByLevel := Map_set lvl (currentCount + 1) (droppedByLevel l)\<rparr>, False)))"

fun console_of :: "LogLevel \<Rightarrow> console_method" where
  "console_of ERROR = ConsoleError"
| "console_of WARN = ConsoleWarn"
| "console_of INFO = ConsoleInfo"
| "console_of DEBUG = ConsoleLog"

definition log ::
  "int \<Rightarrow> LogLevel \<Rightarrow> string \<Rightarrow> string list \<Rightarrow> LogRateLimiter
     \<Rightarrow> LogRateLimiter \<times> limiter_console" where
  "log now lvl message args l =
     (if shouldAggregate message then (aggregateMessage now lvl message l, [])
      else
        (let (l1, allowed) = shouldLog now lvl l
         in if \<not> allowed then (l1, [])
            else (l1, [(console_of lvl, Direct lvl message args)])))"

definition resetDroppedCount :: "LogRateLimiter \<Rightarrow> LogRateLimiter" where
  "resetDroppedCount l =
     l\<lparr>droppedCount := 0,
       droppedByLevel :=
         Map_set DEBUG 0 (Map_set INFO 0 (Map_set WARN 0 (Map_set ERROR 0 (droppedByLevel l))))\<rparr>"

text \<open>The body of the interval timer started by \<open>startDroppedLogReporting\<close>, run at \<open>now\<close>.\<close>

definition report_tick :: "int \<Rightarrow> LogRateLimiter \<Rightarrow> LogRateLimiter \<times> limiter_console" where
  "report_tick now l0 =
     (let (l, flushed) = flushAggregatedMessages now l0
      in if now - lastDroppedReportTime l \<ge> droppedReportIntervalMs then
           (if droppedCount l > 0 then
              ((resetDroppedCount l)\<lparr>lastDroppedReportTime := now\<rparr>,
               flushed @ [(ConsoleWarn, DroppedReport (droppedCount l)
                             (droppedReportIntervalMs div 1000)
                             (filter (\<lambda>(lv, n). n > 0) (droppedByLevel l)))])
            else (l\<lparr>lastDroppedReportTime := now\<rparr>, flushed))
         else (l, flushed))"

subsection \<open>Reachable limiter states\<close>

datatype limiter_call =
    Log int LogLevel string "string list"
  | Tick int
  | ResetDroppedCount

fun limiter_step :: "limiter_call \<Rightarrow> LogRateLimiter \<Rightarrow> LogRateLimiter \<times> limiter_console" where
  "limiter_step (Log now lvl message args) l = log now lvl message args l"
| "limiter_step (Tick now) l = report_tick now l"
| "limiter_step ResetDroppedCount l = (resetDroppedCount l, [])"

fun limiter_run :: "limiter_call list \<Rightarrow> LogRateLimiter \<Rightarrow> LogRateLimiter \<times> limiter_console" where
  "limiter_run [] l = (l, [])"
| "limiter_run (c # cs) l =
     (let (l1, out1) = limiter_step c l; (l2, out2) = limiter_run cs l1 in (l2, out1 @ out2))"

text \<open>The clock readings of a history, in order.\<close>

fun clock_reading :: "limiter_call \<Rightarrow> int list" where
  "clock_reading (Log now lvl message args) = [now]"
| "clock_reading (Tick now) = [now]"
| "clock_reading ResetDroppedCount = []"

definition clock_readings :: "limiter_call list \<Rightarrow> int list" where
  "clock_readings calls = concat (map clock_reading calls)"

definition tokens_in_range :: "LogRateLimiter \<Rightarrow> bool" where
  "tokens_in_range l = (0 \<le> tokens l \<and> tokens l \<le> bucketSize l)"

text \<open>An example tracker: one call of \<open>trackActivity\<close> for dispatch \<open>d1\<close> in room \<open>R1\<close>.\<close>

definition tracking_d1 :: AgentTracker where
  "tracking_d1 = fst (trackActivity 0 ''d1'' ''R1'' None None (new_AgentTracker None))"

text \<open>
  More examples: the tracker after \<open>d1\<close> was marked for cleanup with a TTL of one second
  at time 0, the entry a scan then finds, the tracker after the TTL was extended and after
  the dispatch was tracked again, and two states of the example service.
\<close>

definition marked_d1 :: AgentTracker where
  "marked_d1 = fst (markForCleanup 0 ''d1'' (Some (Num 1)) tracking_d1)"

definition scanned_d1 :: AgentActivity where
  "scanned_d1 =
     \<lparr>dispatchId = ''d1'', roomName = ''R1'', agentName = ''task-assistant'', createdAt = 0,
      lastActivityAt = 0, participantCount = 0, ttlExpiresAt = Some (Valid 1000)\<rparr>"

definition history_d1 :: "tracker_call list" where
  "history_d1 =
     [TrackActivity 0 ''d1'' ''R1'' None None, MarkForCleanup 0 ''d1'' (Some (Num 1))]"

definition extended_d1 :: AgentTracker where
  "extended_d1 = fst (markForCleanup 500 ''d1'' (Some (Num 60)) marked_d1)"

definition reactivated_d1 :: AgentTracker where
  "reactivated_d1 =
     fst (trackActivity 1500 ''d1'' ''R1'' None None (tracker_run history_d1 (new_AgentTracker None)))"

definition proc_of :: "AgentTracker \<Rightarrow> 'w \<Rightarrow> 'w proc" where
  "proc_of t w = \<lparr>tracker = t, service = w, api_calls = [], console = []\<rparr>"

definition registered_R1 :: registry where
  "registered_R1 = \<lparr>dispatches = [(''AD_1'', ''R1'')], fresh_ids = [''AD_2'']\<rparr>"

definition registered_d1 :: registry where
  "registered_d1 = \<lparr>dispatches = [(''d1'', ''R1'')], fresh_ids = []\<rparr>"

definition no_dispatches :: registry where
  "no_dispatches = \<lparr>dispatches = [], fresh_ids = []\<rparr>"

text \<open>
  For the claims about the limiter: a configuration with nonnegative rate and capacity; a
  call that logs a message matching an aggregation pattern and normalised to key \<open>k\<close>;
  the level of the first call of a history; a run of the interval timer; and whether a
  console line carries a given message, directly or as the summary of its key.
\<close>

definition finite_bucket :: "LogRateLimiter \<Rightarrow> bool" where
  "finite_bucket l =
     (is_finite (maxLogsPerSecond l) \<and> is_finite (bucketSize l) \<and> is_finite (tokens l))"

definition well_configured :: "LogRateLimiter \<Rightarrow> bool" where
  "well_configured l = (finite_bucket l \<and> 0 \<le> maxLogsPerSecond l \<and> 0 \<le> bucketSize l)"

fun is_noisy_log :: "string \<Rightarrow> limiter_call \<Rightarrow> bool" where
  "is_noisy_log k (Log now lvl message args) =
     (shouldAggregate message \<and> getAggregationKey message = k)"
| "is_noisy_log k c = False"

fun first_level :: "limiter_call list \<Rightarrow> LogLevel" where
  "first_level (Log now lvl message args # cs) = lvl"
| "first_level cs = DEBUG"

fun is_tick :: "limiter_call \<Rightarrow> bool" where
  "is_tick (Tick now) = True"
| "is_tick c = False"

fun mentions :: "string \<Rightarrow> string \<Rightarrow> console_method \<times> limiter_line \<Rightarrow> bool" where
  "mentions message k (m, Direct lv msg args) = (msg = message)"
| "mentions message k (m, AggregatedSummary lv n w aggregated) = (aggregated = k)"
| "mentions message k (m, DroppedReport n w breakdown) = False"

text \<open>
  Example limiters and histories: a limiter of rate 1 whose only token was spent at time
  0, and one window in which an error-level health-check line occurs once.
\<close>

definition drained :: LogRateLimiter where
  "drained = fst (log 0 INFO ''a'' [] (new_LogRateLimiter 0 (Some (Num 1))))"

definition one_window :: "limiter_call list" where
  "one_window =
     [Log 1 INFO ''starting'' []] @ [Log 2 ERROR ''health check failed'' []]
       @ [Log 3 WARN ''participant connected: 4'' []] @ [Tick 60000]"

section \<open>The tracker's map\<close>

lemma Map_set_keys:
  "map fst (Map_set k v m) = (if k \<in> set (map fst m) then map fst m else map fst m @ [k])"
  by (induction m) auto

lemma Map_set_distinct: "distinct (map fst m) \<Longrightarrow> distinct (map fst (Map_set k v m))"
  by (simp add: Map_set_keys)

lemma Map_set_subset: "set (Map_set k v m) \<subseteq> insert (k, v) (set m)"
  by (induction m) auto

lemma Map_delete_distinct: "distinct (map fst m) \<Longrightarrow> distinct (map fst (Map_delete k m))"
  by (simp add: Map_delete_def distinct_map_filter)

lemma Map_delete_subset: "set (Map_delete k m) \<subseteq> set m"
  by (auto simp: Map_delete_def)

lemma Map_get_SomeD: "Map_get m k = Some v \<Longrightarrow> (k, v) \<in> set m"
  by (simp add: Map_get_def map_of_SomeD)

lemma Map_get_set: "Map_get (Map_set k v m) k' = (if k' = k then Some v else Map_get m k')"
  by (induction m) (auto simp: Map_get_def)

lemma Map_get_delete: "Map_get (Map_delete k m) k' = (if k' = k then None else Map_get m k')"
  by (induction m) (auto simp: Map_get_def Map_delete_def)

subsection \<open>Every entry is stored under its own dispatch id\<close>

lemma tracker_inv_set:
  assumes "tracker_inv S t" and "entry_ok S' (k, v)" and "S \<subseteq> S'"
  shows "tracker_inv S' (t\<lparr>activities := Map_set k v (activities t)\<rparr>)"
proof -
  have "\<forall>p \<in> set (Map_set k v (activities t)). entry_ok S' p"
  proof
    fix p assume "p \<in> set (Map_set k v (activities t))"
    then have "p = (k, v) \<or> p \<in> set (activities t)"
      using Map_set_subset[of k v "activities t"] by blast
    then show "entry_ok S' p"
    proof
      assume "p = (k, v)" with assms(2) show ?thesis by simp
    next
      assume "p \<in> set (activities t)"
      with assms(1) have "entry_ok S p" by (simp add: tracker_inv_def)
      with assms(3) show ?thesis unfolding entry_ok_def by blast
    qed
  qed
  moreover have "distinct (map fst (Map_set k v (activities t)))"
    using assms(1) by (simp add: tracker_inv_def Map_set_distinct)
  ultimately show ?thesis by (simp add: tracker_inv_def)
qed

lemma tracker_inv_lookup:
  "tracker_inv S t \<Longrightarrow> Map_get (activities t) k = Some ex \<Longrightarrow> entry_ok S (k, ex)"
  by (auto simp: tracker_inv_def dest: Map_get_SomeD)

lemma tracker_inv_delete:
  assumes "tracker_inv S t"
  shows "tracker_inv S (t\<lparr>activities := Map_delete k (activities t)\<rparr>)"
proof -
  have "\<forall>p \<in> set (Map_delete k (activities t)). entry_ok S p"
    using assms Map_delete_subset[of k "activities t"] unfolding tracker_inv_def by blast
  with assms show ?thesis by (simp add: tracker_inv_def Map_delete_distinct)
qed

lemma tracker_inv_trackActivity:
  assumes "tracker_inv S t"
  shows "tracker_inv (insert (did, room, case agent of None \<Rightarrow> ''task-assistant'' | Some a \<Rightarrow> a) S)
           (fst (trackActivity now did room agent cnt t))"
proof (cases "Map_get (activities t) did")
  case None
  have "entry_ok (insert (did, room, case agent of None \<Rightarrow> ''task-assistant'' | Some a \<Rightarrow> a) S)
     (did, \<lparr>dispatchId = did, roomName = room,
            agentName = (case agent of None \<Rightarrow> ''task-assistant'' | Some a \<Rightarrow> a),
            createdAt = now, lastActivityAt = now,
            participantCount = (case cnt of None \<Rightarrow> 1 | Some c \<Rightarrow> c),
            ttlExpiresAt = None\<rparr>)"
    by (simp add: entry_ok_def)
  from tracker_inv_set[OF assms this] None show ?thesis
    by (simp add: trackActivity_def Let_def subset_insertI)
next
  case (Some ex)
  from tracker_inv_lookup[OF assms Some]
  have "entry_ok (insert (did, room, case agent of None \<Rightarrow> ''task-assistant'' | Some a \<Rightarrow> a) S)
     (did, ex\<lparr>lastActivityAt := now,
              participantCount := (case cnt of None \<Rightarrow> 1 | Some c \<Rightarrow> c),
              ttlExpiresAt := None\<rparr>)"
    by (simp add: entry_ok_def)
  from tracker_inv_set[OF assms this] Some show ?thesis
    by (simp add: trackActivity_def Let_def subset_insertI)
qed

lemma tracker_inv_markForCleanup:
  assumes "tracker_inv S t"
  shows "tracker_inv S (fst (markForCleanup now did ttl t))"
proof (cases "Map_get (activities t) did")
  case None
  with assms show ?thesis by (simp add: markForCleanup_def)
next
  case (Some ex)
  let ?e = "new_Date (Num (rat_of_int now)
              + (case ttl of None \<Rightarrow> defaultTtlSeconds t | Some s \<Rightarrow> s) * Num 1000)"
  from tracker_inv_lookup[OF assms Some]
  have "entry_ok S (did, ex\<lparr>ttlExpiresAt := Some ?e, participantCount := 0\<rparr>)"
    by (simp add: entry_ok_def)
  from tracker_inv_set[OF assms this] Some show ?thesis
    by (cases ?e) (simp_all add: markForCleanup_def Let_def)
qed

lemma tracker_inv_cancelCleanup:
  assumes "tracker_inv S t"
  shows "tracker_inv S (fst (cancelCleanup now did t))"
proof (cases "Map_get (activities t) did")
  case None
  with assms show ?thesis by (simp add: cancelCleanup_def)
next
  case (Some ex)
  from tracker_inv_lookup[OF assms Some]
  have "entry_ok S (did, ex\<lparr>ttlExpiresAt := None, lastActivityAt := now\<rparr>)"
    by (simp add: entry_ok_def)
  from tracker_inv_set[OF assms this] Some show ?thesis
    by (simp add: cancelCleanup_def Let_def)
qed

lemma tracker_inv_step:
  assumes "tracker_inv S t"
  shows "tracker_inv (S \<union> set (track_key c)) (tracker_step c t)"
proof (cases c)
  case (TrackActivity now did room agent cnt)
  with tracker_inv_trackActivity[OF assms, of did room agent now cnt] show ?thesis by simp
next
  case (MarkForCleanup now did ttl)
  with tracker_inv_markForCleanup[OF assms, of now did ttl] show ?thesis by simp
next
  case (CancelCleanup now did)
  with tracker_inv_cancelCleanup[OF assms, of now did] show ?thesis by simp
next
  case (RemoveAgent did)
  with tracker_inv_delete[OF assms, of did] show ?thesis by (simp add: removeAgent_def)
next
  case Clear
  then show ?thesis by (simp add: tracker_inv_def clear_def)
qed

lemma track_keys_Cons: "set (track_keys (c # cs)) = set (track_key c) \<union> set (track_keys cs)"
  by (simp add: track_keys_def)

lemma tracker_inv_run:
  "tracker_inv S t \<Longrightarrow> tracker_inv (S \<union> set (track_keys calls)) (tracker_run calls t)"
proof (induction calls arbitrary: S t)
  case Nil
  then show ?case by (simp add: tracker_run_def track_keys_def)
next
  case (Cons c cs)
  from Cons.prems have "tracker_inv (S \<union> set (track_key c)) (tracker_step c t)"
    by (rule tracker_inv_step)
  from Cons.IH[OF this] show ?case
    by (simp add: tracker_run_def track_keys_Cons Un_assoc)
qed

lemma tracker_inv_new: "tracker_inv {} (new_AgentTracker ttl)"
  by (simp add: tracker_inv_def new_AgentTracker_def)

lemma tracker_inv_reachable:
  "tracker_inv (set (track_keys calls)) (tracker_run calls (new_AgentTracker ttl))"
  using tracker_inv_run[OF tracker_inv_new, where calls = calls and ttl1 = ttl] by simp

lemma inv_one_per_dispatch:
  assumes "tracker_inv S t" shows "one_per_dispatch t"
proof -
  have "map dispatchId (Map_values (activities t)) = map fst (activities t)"
    using assms by (simp add: tracker_inv_def entry_ok_def Map_values_def)
  with assms show ?thesis by (simp add: one_per_dispatch_def tracker_inv_def)
qed

lemma inv_one_per_room_agent:
  assumes "tracker_inv S t" and "\<forall>x \<in> S. \<forall>y \<in> S. snd x = snd y \<longrightarrow> fst x = fst y"
  shows "one_per_room_agent t"
proof -
  have dk: "distinct (map fst (activities t))" using assms(1) by (simp add: tracker_inv_def)
  then have d: "distinct (activities t)" by (simp add: distinct_map)
  have "inj_on (\<lambda>p. (roomName (snd p), agentName (snd p))) (set (activities t))"
  proof (rule inj_onI)
    fix p q assume p: "p \<in> set (activities t)" and q: "q \<in> set (activities t)"
      and e: "(roomName (snd p), agentName (snd p)) = (roomName (snd q), agentName (snd q))"
    from assms(1) p have ps: "(fst p, roomName (snd p), agentName (snd p)) \<in> S"
      by (simp add: tracker_inv_def entry_ok_def)
    from assms(1) q have qs: "(fst q, roomName (snd q), agentName (snd q)) \<in> S"
      by (simp add: tracker_inv_def entry_ok_def)
    from assms(2) ps qs e have k: "fst p = fst q" by fastforce
    have "(fst p, snd p) \<in> set (activities t)" using p by simp
    moreover have "(fst p, snd q) \<in> set (activities t)" unfolding k using q by simp
    ultimately have "snd p = snd q" using dk by (metis eq_key_imp_eq_value)
    with k show "p = q" by (rule prod_eqI)
  qed
  with d have "distinct (map (\<lambda>p. (roomName (snd p), agentName (snd p))) (activities t))"
    by (simp add: distinct_map)
  then show ?thesis by (simp add: one_per_room_agent_def Map_values_def comp_def)
qed

section \<open>Claims about the tracker\<close>

text \<open>
  C1, as stated: in every reachable state of the tracker at most one entry exists for a
  room and agent name, also after \<open>trackActivity\<close> calls with distinct dispatch ids for
  the same room and agent. The map is keyed by dispatch id and \<open>trackActivity\<close> looks
  up that key only, so two calls with ids \<open>d1\<close> and \<open>d2\<close> for room \<open>R\<close> and the default
  agent leave two entries for that pair.
\<close>

theorem two_dispatches_same_room_counterexample:
  "\<not> one_per_room_agent (tracker_run
       [TrackActivity 0 ''d1'' ''R'' None None, TrackActivity 1 ''d2'' ''R'' None None]
       (new_AgentTracker None))"
  by (simp add: one_per_room_agent_def tracker_run_def trackActivity_def new_AgentTracker_def
      Map_get_def Map_values_def Let_def)

text \<open>
  C1, amended: in every reachable state of the tracker at most one entry exists for a
  dispatch id; and at most one entry exists for a room and agent name whenever the
  \<open>trackActivity\<close> calls of the history never name two dispatch ids for one room and agent.
\<close>

theorem tracker_unique_per_dispatch:
  "one_per_dispatch (tracker_run calls (new_AgentTracker ttl)) \<and>
   (same_dispatch_per_pair calls \<longrightarrow>
      one_per_room_agent (tracker_run calls (new_AgentTracker ttl)))"
proof -
  have i: "tracker_inv (set (track_keys calls)) (tracker_run calls (new_AgentTracker ttl))"
    by (rule tracker_inv_reachable)
  have "one_per_dispatch (tracker_run calls (new_AgentTracker ttl))"
    using i by (rule inv_one_per_dispatch)
  moreover have "same_dispatch_per_pair calls
      \<Longrightarrow> one_per_room_agent (tracker_run calls (new_AgentTracker ttl))"
    using i unfolding same_dispatch_per_pair_def by (rule inv_one_per_room_agent)
  ultimately show ?thesis by blast
qed

theorem tracker_unique_per_dispatch_witness:
  "same_dispatch_per_pair
     [TrackActivity 0 ''d1'' ''R'' None None, MarkForCleanup 5 ''d1'' (Some (Num 1)),
      TrackActivity 7 ''d1'' ''R'' None (Some 2), TrackActivity 8 ''d2'' ''S'' None None] \<and>
   one_per_room_agent (tracker_run
     [TrackActivity 0 ''d1'' ''R'' None None, MarkForCleanup 5 ''d1'' (Some (Num 1)),
      TrackActivity 7 ''d1'' ''R'' None (Some 2), TrackActivity 8 ''d2'' ''S'' None None]
     (new_AgentTracker None))"
proof -
  have h: "same_dispatch_per_pair
     [TrackActivity 0 ''d1'' ''R'' None None, MarkForCleanup 5 ''d1'' (Some (Num 1)),
      TrackActivity 7 ''d1'' ''R'' None (Some 2), TrackActivity 8 ''d2'' ''S'' None None]"
    by (simp add: same_dispatch_per_pair_def track_keys_def)
  with tracker_unique_per_dispatch[where calls =
     "[TrackActivity 0 ''d1'' ''R'' None None, MarkForCleanup 5 ''d1'' (Some (Num 1)),
       TrackActivity 7 ''d1'' ''R'' None (Some 2), TrackActivity 8 ''d2'' ''S'' None None]"
     and ttl = None]
  show ?thesis by blast
qed

text \<open>
  C8, as stated: for a dispatch id unknown to the tracker both \<open>markForCleanup\<close> and
  \<open>cancelCleanup\<close> are no-ops that emit a warning. \<open>cancelCleanup\<close> has no branch for
  an unknown id: on a fresh tracker it returns with nothing written to the console.
\<close>

theorem cancelCleanup_unknown_is_silent:
  "getActivityByDispatchId ''ghost'' (new_AgentTracker None) = None \<and>
   snd (cancelCleanup 0 ''ghost'' (new_AgentTracker None)) = []"
  by (simp add: getActivityByDispatchId_def cancelCleanup_def new_AgentTracker_def Map_get_def)

lemma new_Date_whole:
  assumes "\<bar>now + seconds * 1000\<bar> \<le> (8640000000000000 :: int)"
  shows "new_Date (Num (rat_of_int now) + Num (rat_of_int seconds) * Num 1000)
           = Valid (now + seconds * 1000)"
proof -
  have e: "rat_of_int now + rat_of_int seconds * 1000 = rat_of_int (now + seconds * 1000)"
    by simp
  have "\<bar>rat_of_int (now + seconds * 1000)\<bar> \<le> 8640000000000000"
    using assms by (metis of_int_abs of_int_le_iff of_int_numeral)
  moreover have "to_integer (rat_of_int x) = x" for x
    by (simp add: to_integer_def)
  then have "to_integer (rat_of_int (now + seconds * 1000)) = now + seconds * 1000" .
  ultimately show ?thesis unfolding plus_number.simps times_number.simps scale.simps e
    by (simp del: of_int_add of_int_mult)
qed

text \<open>
  C8, amended: for a dispatch id unknown to the tracker, \<open>markForCleanup\<close> leaves the
  state unchanged and emits one warning, and \<open>cancelCleanup\<close> leaves the state unchanged
  and emits nothing; neither raises. For a known dispatch id and a TTL (the argument, or
  the default TTL when it is omitted) that is a whole number of seconds with
  \<open>now + ttl * 1000\<close> within the range of a \<open>Date\<close> (8.64e15 milliseconds either side of
  the epoch), \<open>markForCleanup\<close> sets \<open>ttlExpiresAt\<close> to \<open>now\<close> plus the TTL in
  milliseconds and \<open>participantCount\<close> to zero, changes no other field and no other
  entry, logs the line and does not raise.
\<close>

theorem markForCleanup_cancelCleanup_cases:
  "(getActivityByDispatchId did t = None \<longrightarrow>
      markForCleanup now did ttl t = (t, [(ConsoleWarn, CannotMarkUnknown did)], None) \<and>
      cancelCleanup now did t = (t, [])) \<and>
   (getActivityByDispatchId did t = Some a \<and>
    (case ttl of None \<Rightarrow> defaultTtlSeconds t | Some s \<Rightarrow> s) = Num (rat_of_int seconds) \<and>
    \<bar>now + seconds * 1000\<bar> \<le> 8640000000000000 \<longrightarrow>
      getActivityByDispatchId did (fst (markForCleanup now did ttl t)) =
        Some (a\<lparr>ttlExpiresAt := Some (Valid (now + seconds * 1000)),
                 participantCount := 0\<rparr>) \<and>
      (\<forall>other. other \<noteq> did \<longrightarrow>
         getActivityByDispatchId other (fst (markForCleanup now did ttl t)) =
           getActivityByDispatchId other t) \<and>
      defaultTtlSeconds (fst (markForCleanup now did ttl t)) = defaultTtlSeconds t \<and>
      snd (markForCleanup now did ttl t)
        = ([(ConsoleLog, MarkedForCleanup did (roomName a) (Num (rat_of_int seconds))
               (now + seconds * 1000))], None))"
proof -
  have "new_Date (Num (rat_of_int now) + Num (rat_of_int seconds) * Num 1000)
          = Valid (now + seconds * 1000)"
    if "\<bar>now + seconds * 1000\<bar> \<le> 8640000000000000"
    using that by (rule new_Date_whole)
  then show ?thesis
    by (simp add: getActivityByDispatchId_def markForCleanup_def cancelCleanup_def Let_def
        Map_get_set)
qed

theorem markForCleanup_cancelCleanup_witness:
  "getActivityByDispatchId ''ghost'' (new_AgentTracker None) = None \<and>
   markForCleanup 7 ''ghost'' None (new_AgentTracker None)
     = (new_AgentTracker None, [(ConsoleWarn, CannotMarkUnknown ''ghost'')], None) \<and>
   cancelCleanup 7 ''ghost'' (new_AgentTracker None) = (new_AgentTracker None, []) \<and>
   getActivityByDispatchId ''d1'' tracking_d1
     = Some \<lparr>dispatchId = ''d1'', roomName = ''R1'', agentName = ''task-assistant'',
            createdAt = 0, lastActivityAt = 0, participantCount = 1, ttlExpiresAt = None\<rparr> \<and>
   (case None of None \<Rightarrow> defaultTtlSeconds tracking_d1 | Some s \<Rightarrow> s)
     = Num (rat_of_int 300) \<and>
   \<bar>1000 + 300 * 1000\<bar> \<le> (8640000000000000 :: int) \<and>
   getActivityByDispatchId ''d1'' (fst (markForCleanup 1000 ''d1'' None tracking_d1))
     = Some \<lparr>dispatchId = ''d1'', roomName = ''R1'', agentName = ''task-assistant'',
            createdAt = 0, lastActivityAt = 0, participantCount = 0,
            ttlExpiresAt = Some (Valid 301000)\<rparr> \<and>
   getActivityByDispatchId ''ghost'' (fst (markForCleanup 1000 ''d1'' None tracking_d1)) = None \<and>
   snd (markForCleanup 1000 ''d1'' None tracking_d1)
     = ([(ConsoleLog, MarkedForCleanup ''d1'' ''R1'' (Num 300) 301000)], None)"
proof -
  note T = markForCleanup_cancelCleanup_cases
  let ?a = "\<lparr>dispatchId = ''d1'', roomName = ''R1'', agentName = ''task-assistant'',
            createdAt = 0, lastActivityAt = 0, participantCount = 1, ttlExpiresAt = None\<rparr>"
  have u: "getActivityByDispatchId ''ghost'' (new_AgentTracker None) = None"
    by (simp add: getActivityByDispatchId_def new_AgentTracker_def Map_get_def)
  have k: "getActivityByDispatchId ''d1'' tracking_d1 = Some ?a"
    by (simp add: tracking_d1_def getActivityByDispatchId_def new_AgentTracker_def Map_get_def
        trackActivity_def Let_def)
  have g: "getActivityByDispatchId ''ghost'' tracking_d1 = None"
    by (simp add: tracking_d1_def getActivityByDispatchId_def new_AgentTracker_def Map_get_def
        trackActivity_def Let_def)
  have d: "(case None of None \<Rightarrow> defaultTtlSeconds tracking_d1 | Some s \<Rightarrow> s)
             = Num (rat_of_int 300)"
    by (simp add: tracking_d1_def new_AgentTracker_def Map_get_def trackActivity_def Let_def)
  have r: "\<bar>1000 + 300 * 1000\<bar> \<le> (8640000000000000 :: int)" by simp
  from T[where did = "''ghost''" and t = "new_AgentTracker None" and now = 7 and ttl = None,
      THEN conjunct1, THEN mp, OF u]
  have c1: "markForCleanup 7 ''ghost'' None (new_AgentTracker None)
     = (new_AgentTracker None, [(ConsoleWarn, CannotMarkUnknown ''ghost'')], None)"
    "cancelCleanup 7 ''ghost'' (new_AgentTracker None) = (new_AgentTracker None, [])"
    by blast+
  from T[where did = "''d1''" and t = tracking_d1 and now = 1000 and ttl = None
      and a = ?a and seconds = 300, THEN conjunct2, THEN mp, OF conjI[OF k conjI[OF d r]]]
  have c2: "getActivityByDispatchId ''d1'' (fst (markForCleanup 1000 ''d1'' None tracking_d1))
     = Some \<lparr>dispatchId = ''d1'', roomName = ''R1'', agentName = ''task-assistant'',
            createdAt = 0, lastActivityAt = 0, participantCount = 0,
            ttlExpiresAt = Some (Valid 301000)\<rparr>"
    "getActivityByDispatchId ''ghost'' (fst (markForCleanup 1000 ''d1'' None tracking_d1))
       = getActivityByDispatchId ''ghost'' tracking_d1"
    "snd (markForCleanup 1000 ''d1'' None tracking_d1)
     = ([(ConsoleLog, MarkedForCleanup ''d1'' ''R1'' (Num 300) 301000)], None)"
    by simp_all
  from u c1 k d r c2(1) c2(2)[unfolded g] c2(3) show ?thesis by (intro conjI)
qed

text \<open>
  Outside that range the same call writes an Invalid Date and a zero count into the
  entry and then throws: with a \<open>NaN\<close> TTL (the singleton passes \<open>parseInt\<close> of
  \<open>AGENT_TTL_SECONDS\<close> as the default) or with an expiry beyond the range of a \<open>Date\<close>.
\<close>

lemma markForCleanup_invalid_expiry:
  assumes "getActivityByDispatchId did t = Some a"
    and "new_Date (Num (rat_of_int now)
           + (case ttl of None \<Rightarrow> defaultTtlSeconds t | Some s \<Rightarrow> s) * Num 1000) = Invalid"
  shows "markForCleanup now did ttl t
           = (t\<lparr>activities := Map_set did
                  (a\<lparr>ttlExpiresAt := Some Invalid, participantCount := 0\<rparr>) (activities t)\<rparr>,
              [], Some (RangeError invalid_time_value))"
  using assms by (simp add: getActivityByDispatchId_def markForCleanup_def Let_def)

lemma markForCleanup_NaN_raises:
  "snd (snd (markForCleanup 1000 ''d1'' (Some NaN) tracking_d1))
     = Some (RangeError invalid_time_value)"
  by (simp add: markForCleanup_def tracking_d1_def trackActivity_def new_AgentTracker_def
      Map_get_def Let_def)

section \<open>Claims about the cleanup worker\<close>

lemma cleanupAgent_skip:
  assumes "getActivityByDispatchId (dispatchId agent) (tracker p) = Some cur"
    and "ttlExpiresAt cur = None \<or> (\<exists>e. ttlExpiresAt cur = Some (Valid e) \<and> now < e)"
  shows "cleanupAgent del cl now agent p
           = emit [(ConsoleLog, Worker (if ttlExpiresAt cur = None
                                        then NoLongerExpired (dispatchId agent)
                                        else TtlExtended (dispatchId agent)))] p"
  using assms by (auto simp: cleanupAgent_def)

lemma cleanupAgent_failure:
  assumes "fst (del cl (dispatchId agent) (roomName agent) (service p)) = Inl message"
  shows "tracker (cleanupAgent del cl now agent p) = tracker p"
proof -
  obtain outcome w where d: "del cl (dispatchId agent) (roomName agent) (service p) = (outcome, w)"
    by (cases "del cl (dispatchId agent) (roomName agent) (service p)")
  with assms have o: "outcome = Inl message" by simp
  show ?thesis
    using d o
    by (simp add: cleanupAgent_def emit_def Let_def split: option.split Date.split)
qed

lemma cleanupAgent_removes_only_after_deletion:
  assumes "tracker (cleanupAgent del cl now agent p) \<noteq> tracker p"
  shows "fst (del cl (dispatchId agent) (roomName agent) (service p)) = Inr () \<and>
         api_calls (cleanupAgent del cl now agent p)
           = api_calls p @ [DeleteDispatch (dispatchId agent) (roomName agent)] \<and>
         tracker (cleanupAgent del cl now agent p) = fst (removeAgent (dispatchId agent) (tracker p))"
proof -
  obtain outcome w where d: "del cl (dispatchId agent) (roomName agent) (service p) = (outcome, w)"
    by (cases "del cl (dispatchId agent) (roomName agent) (service p)")
  show ?thesis
    using assms d
    by (cases outcome)
      (auto simp: cleanupAgent_def emit_def Let_def case_prod_beta
        split: option.splits if_splits Date.splits)
qed

lemma trackActivity_lookup:
  "\<exists>a. getActivityByDispatchId did (fst (trackActivity now did room ag cnt t)) = Some a \<and>
       ttlExpiresAt a = None"
  by (cases "Map_get (activities t) did")
    (simp_all add: trackActivity_def getActivityByDispatchId_def Let_def Map_get_set)

lemma inv_entry_of_id:
  assumes "tracker_inv S t" and "getActivityByDispatchId did t = Some a"
    and "x \<in> set (Map_values (activities t))" and "dispatchId x = did"
  shows "x = a"
proof -
  from assms(3) obtain k where kx: "(k, x) \<in> set (activities t)"
    by (auto simp: Map_values_def)
  with assms(1) have "dispatchId x = k" by (auto simp: tracker_inv_def entry_ok_def)
  with assms(4) kx have 1: "(did, x) \<in> set (activities t)" by simp
  from assms(2) have 2: "(did, a) \<in> set (activities t)"
    by (simp add: getActivityByDispatchId_def Map_get_SomeD)
  from assms(1) have "distinct (map fst (activities t))" by (simp add: tracker_inv_def)
  with 1 2 show ?thesis by (metis eq_key_imp_eq_value)
qed

lemma reactivated_not_expired:
  assumes "t = fst (trackActivity now' did room ag cnt (tracker_run calls (new_AgentTracker ttl)))"
  shows "did \<notin> dispatchId ` set (getExpiredAgents now t)"
proof
  assume "did \<in> dispatchId ` set (getExpiredAgents now t)"
  then obtain x where x: "x \<in> set (Map_values (activities t))" "is_expired now x" "dispatchId x = did"
    by (auto simp: getExpiredAgents_def)
  have "tracker_inv (insert (did, room, case ag of None \<Rightarrow> ''task-assistant'' | Some a \<Rightarrow> a)
          (set (track_keys calls))) t"
    unfolding assms by (rule tracker_inv_trackActivity[OF tracker_inv_reachable])
  moreover obtain a where a: "getActivityByDispatchId did t = Some a" "ttlExpiresAt a = None"
    unfolding assms using trackActivity_lookup by blast
  ultimately have "x = a" using x(1,3) by (metis inv_entry_of_id)
  with x(2) a(2) show False by (simp add: is_expired_def)
qed

lemmas tracker_defs = tracking_d1_def trackActivity_def markForCleanup_def cancelCleanup_def
  new_AgentTracker_def getActivityByDispatchId_def Map_get_def Let_def tracker_run_def
  to_integer_def

text \<open>
  C4: an entry that a cleanup cycle processes is skipped (the tracker, the service and
  the list of calls issued stay as they are, so nothing is deleted) when its current
  tracker entry has no TTL or a TTL after \<open>now\<close>; when the external deletion fails the
  tracker is left as it was; whenever the worker does change the tracker, the external
  deletion was called and succeeded and the change is \<open>removeAgent\<close>; and after a
  \<open>trackActivity\<close> call for a dispatch, in any reachable state, the dispatch is not
  among \<open>getExpiredAgents\<close> and its processing is a skip.
\<close>

theorem cleanup_skips_reactivated_keeps_on_failure:
  "(getActivityByDispatchId (dispatchId agent) (tracker p) = Some cur \<and>
    (ttlExpiresAt cur = None \<or> (\<exists>e. ttlExpiresAt cur = Some (Valid e) \<and> now < e)) \<longrightarrow>
      tracker (cleanupAgent del cl now agent p) = tracker p \<and>
      service (cleanupAgent del cl now agent p) = service p \<and>
      api_calls (cleanupAgent del cl now agent p) = api_calls p) \<and>
   (fst (del cl (dispatchId agent) (roomName agent) (service p)) = Inl message \<longrightarrow>
      tracker (cleanupAgent del cl now agent p) = tracker p) \<and>
   (tracker (cleanupAgent del cl now agent p) \<noteq> tracker p \<longrightarrow>
      fst (del cl (dispatchId agent) (roomName agent) (service p)) = Inr () \<and>
      api_calls (cleanupAgent del cl now agent p)
        = api_calls p @ [DeleteDispatch (dispatchId agent) (roomName agent)] \<and>
      tracker (cleanupAgent del cl now agent p)
        = fst (removeAgent (dispatchId agent) (tracker p))) \<and>
   (tracker p = fst (trackActivity now' (dispatchId agent) room ag cnt
                       (tracker_run calls (new_AgentTracker ttl))) \<longrightarrow>
      dispatchId agent \<notin> dispatchId ` set (getExpiredAgents now (tracker p)) \<and>
      cleanupAgent del cl now agent p
        = emit [(ConsoleLog, Worker (NoLongerExpired (dispatchId agent)))] p)"
proof (intro conjI impI)
  assume h: "getActivityByDispatchId (dispatchId agent) (tracker p) = Some cur \<and>
    (ttlExpiresAt cur = None \<or> (\<exists>e. ttlExpiresAt cur = Some (Valid e) \<and> now < e))"
  then have s: "cleanupAgent del cl now agent p
           = emit [(ConsoleLog, Worker (if ttlExpiresAt cur = None
                                        then NoLongerExpired (dispatchId agent)
                                        else TtlExtended (dispatchId agent)))] p"
    using cleanupAgent_skip by blast
  show "tracker (cleanupAgent del cl now agent p) = tracker p"
    unfolding s by (simp add: emit_def)
  show "service (cleanupAgent del cl now agent p) = service p"
    unfolding s by (simp add: emit_def)
  show "api_calls (cleanupAgent del cl now agent p) = api_calls p"
    unfolding s by (simp add: emit_def)
next
  assume "fst (del cl (dispatchId agent) (roomName agent) (service p)) = Inl message"
  then show "tracker (cleanupAgent del cl now agent p) = tracker p"
    by (rule cleanupAgent_failure)
next
  assume c: "tracker (cleanupAgent del cl now agent p) \<noteq> tracker p"
  from cleanupAgent_removes_only_after_deletion[OF c]
  show "fst (del cl (dispatchId agent) (roomName agent) (service p)) = Inr ()"
    and "api_calls (cleanupAgent del cl now agent p)
        = api_calls p @ [DeleteDispatch (dispatchId agent) (roomName agent)]"
    and "tracker (cleanupAgent del cl now agent p)
        = fst (removeAgent (dispatchId agent) (tracker p))"
    by simp_all
next
  assume r: "tracker p = fst (trackActivity now' (dispatchId agent) room ag cnt
                       (tracker_run calls (new_AgentTracker ttl)))"
  then show "dispatchId agent \<notin> dispatchId ` set (getExpiredAgents now (tracker p))"
    by (rule reactivated_not_expired)
  obtain a where a: "getActivityByDispatchId (dispatchId agent) (tracker p) = Some a"
      "ttlExpiresAt a = None"
    unfolding r using trackActivity_lookup by blast
  then show "cleanupAgent del cl now agent p
        = emit [(ConsoleLog, Worker (NoLongerExpired (dispatchId agent)))] p"
    using cleanupAgent_skip[of agent p a now del cl] by simp
qed

theorem cleanup_skips_reactivated_witness:
  "getActivityByDispatchId (dispatchId scanned_d1) (tracker (proc_of extended_d1 no_dispatches))
     = Some (scanned_d1\<lparr>ttlExpiresAt := Some (Valid 60500)\<rparr>) \<and>
   tracker (cleanupAgent registry_delete (dispatch_client example_env) 2000 scanned_d1
              (proc_of extended_d1 no_dispatches)) = tracker (proc_of extended_d1 no_dispatches) \<and>
   api_calls (cleanupAgent registry_delete (dispatch_client example_env) 2000 scanned_d1
              (proc_of extended_d1 no_dispatches)) = api_calls (proc_of extended_d1 no_dispatches) \<and>
   fst (registry_delete (dispatch_client example_env) (dispatchId scanned_d1)
          (roomName scanned_d1) (service (proc_of marked_d1 no_dispatches)))
     = Inl ''dispatch not found'' \<and>
   tracker (cleanupAgent registry_delete (dispatch_client example_env) 2000 scanned_d1
              (proc_of marked_d1 no_dispatches)) = tracker (proc_of marked_d1 no_dispatches) \<and>
   getActivityByDispatchId ''d1'' (tracker (proc_of marked_d1 registered_d1)) = Some scanned_d1 \<and>
   getActivityByDispatchId ''d1''
     (tracker (cleanupAgent registry_delete (dispatch_client example_env) 2000 scanned_d1
                 (proc_of marked_d1 registered_d1))) = None \<and>
   fst (registry_delete (dispatch_client example_env) (dispatchId scanned_d1)
          (roomName scanned_d1) (service (proc_of marked_d1 registered_d1))) = Inr () \<and>
   api_calls (cleanupAgent registry_delete (dispatch_client example_env) 2000 scanned_d1
                 (proc_of marked_d1 registered_d1)) = [DeleteDispatch ''d1'' ''R1''] \<and>
   dispatchId scanned_d1 \<notin> dispatchId ` set (getExpiredAgents 2000
                                                (tracker (proc_of reactivated_d1 no_dispatches)))"
proof -
  note T = cleanup_skips_reactivated_keeps_on_failure
  have i: "dispatchId scanned_d1 = ''d1''" "roomName scanned_d1 = ''R1''"
    "ttlExpiresAt scanned_d1 = Some (Valid 1000)"
    by (simp_all add: scanned_d1_def)
  have h1: "getActivityByDispatchId (dispatchId scanned_d1)
      (tracker (proc_of extended_d1 no_dispatches))
     = Some (scanned_d1\<lparr>ttlExpiresAt := Some (Valid 60500)\<rparr>)"
    by (simp add: tracker_defs extended_d1_def marked_d1_def scanned_d1_def proc_of_def)
  have h1': "ttlExpiresAt (scanned_d1\<lparr>ttlExpiresAt := Some (Valid 60500)\<rparr>) = None \<or>
      (\<exists>e. ttlExpiresAt (scanned_d1\<lparr>ttlExpiresAt := Some (Valid 60500)\<rparr>) = Some (Valid e) \<and>
           (2000::int) < e)"
    by simp
  have h2: "fst (registry_delete (dispatch_client example_env) (dispatchId scanned_d1)
          (roomName scanned_d1) (service (proc_of marked_d1 no_dispatches)))
     = Inl ''dispatch not found''"
    by (simp add: registry_delete_def proc_of_def no_dispatches_def)
  have h3: "tracker (proc_of reactivated_d1 no_dispatches)
      = fst (trackActivity 1500 (dispatchId scanned_d1) ''R1'' None None
          (tracker_run history_d1 (new_AgentTracker None)))"
    by (simp add: proc_of_def scanned_d1_def reactivated_d1_def)
  have k: "getActivityByDispatchId ''d1'' (tracker (proc_of marked_d1 registered_d1))
      = Some scanned_d1"
    by (simp add: tracker_defs marked_d1_def scanned_d1_def proc_of_def)
  have d: "registry_delete (dispatch_client example_env) ''d1'' ''R1''
             (service (proc_of marked_d1 registered_d1))
        = (Inr (), \<lparr>dispatches = [], fresh_ids = []\<rparr>)"
    by (simp add: registry_delete_def registered_d1_def proc_of_def)
  have r: "tracker (cleanupAgent registry_delete (dispatch_client example_env) 2000 scanned_d1
             (proc_of marked_d1 registered_d1))
      = fst (removeAgent ''d1'' (tracker (proc_of marked_d1 registered_d1)))"
    using k d i by (simp add: cleanupAgent_def emit_def Let_def case_prod_beta)
  have g: "getActivityByDispatchId ''d1''
     (tracker (cleanupAgent registry_delete (dispatch_client example_env) 2000 scanned_d1
                 (proc_of marked_d1 registered_d1))) = None"
    unfolding r by (simp add: removeAgent_def getActivityByDispatchId_def Map_get_delete)
  have h4: "tracker (cleanupAgent registry_delete (dispatch_client example_env) 2000
      scanned_d1 (proc_of marked_d1 registered_d1)) \<noteq> tracker (proc_of marked_d1 registered_d1)"
  proof
    assume "tracker (cleanupAgent registry_delete (dispatch_client example_env) 2000
      scanned_d1 (proc_of marked_d1 registered_d1)) = tracker (proc_of marked_d1 registered_d1)"
    then have "getActivityByDispatchId ''d1'' (tracker (proc_of marked_d1 registered_d1)) = None"
      using g by (rule subst)
    with k show False by simp
  qed
  from T[where agent = scanned_d1 and p = "proc_of extended_d1 no_dispatches"
      and cur = "scanned_d1\<lparr>ttlExpiresAt := Some (Valid 60500)\<rparr>" and now = 2000
      and del = registry_delete and cl = "dispatch_client example_env",
      THEN conjunct1, THEN mp, OF conjI[OF h1 h1']]
  have c1: "tracker (cleanupAgent registry_delete (dispatch_client example_env) 2000 scanned_d1
              (proc_of extended_d1 no_dispatches)) = tracker (proc_of extended_d1 no_dispatches)"
    "api_calls (cleanupAgent registry_delete (dispatch_client example_env) 2000 scanned_d1
              (proc_of extended_d1 no_dispatches)) = api_calls (proc_of extended_d1 no_dispatches)"
    by blast+
  from T[where agent = scanned_d1 and p = "proc_of marked_d1 no_dispatches" and now = 2000
      and del = registry_delete and cl = "dispatch_client example_env"
      and message = "''dispatch not found''",
      THEN conjunct2, THEN conjunct1, THEN mp, OF h2]
  have c2: "tracker (cleanupAgent registry_delete (dispatch_client example_env) 2000 scanned_d1
              (proc_of marked_d1 no_dispatches)) = tracker (proc_of marked_d1 no_dispatches)" .
  from T[where agent = scanned_d1 and p = "proc_of marked_d1 registered_d1" and now = 2000
      and del = registry_delete and cl = "dispatch_client example_env",
      THEN conjunct2, THEN conjunct2, THEN conjunct1, THEN mp, OF h4]
  have c4: "fst (registry_delete (dispatch_client example_env) (dispatchId scanned_d1)
          (roomName scanned_d1) (service (proc_of marked_d1 registered_d1))) = Inr ()"
    "api_calls (cleanupAgent registry_delete (dispatch_client example_env) 2000 scanned_d1
                 (proc_of marked_d1 registered_d1)) = [DeleteDispatch ''d1'' ''R1'']"
    by (simp_all add: proc_of_def i)
  from T[where agent = scanned_d1 and p = "proc_of reactivated_d1 no_dispatches"
      and now = 2000 and now' = 1500 and room = "''R1''" and ag = None and cnt = None
      and ttl = None and calls = history_d1 and del = registry_delete
      and cl = "dispatch_client example_env",
      THEN conjunct2, THEN conjunct2, THEN conjunct2, THEN mp, OF h3]
  have c3: "dispatchId scanned_d1 \<notin> dispatchId ` set (getExpiredAgents 2000
                                                (tracker (proc_of reactivated_d1 no_dispatches)))"
    by (rule conjunct1)
  from h1 c1 h2 c2 k g c4 c3 show ?thesis by (intro conjI)
qed

section \<open>Claims about the dispatch route\<close>

lemmas route_defs = POST_def example_env_def connect_R1_def fresh_proc_def registry_create_def
  emit_def unset_def AGENT_NAME_def Let_def failed_to_dispatch_def create_calls_def
  reports_reused_def

text \<open>
  C2, as stated: a connect request for a room with exactly one dispatch registered
  externally reports \<open>reused = true\<close> with that dispatch id and does not call the
  external create operation. The handler never lists dispatches: with \<open>AD_1\<close> registered
  for room \<open>R1\<close> it creates \<open>AD_2\<close> and answers without a \<open>reused\<close> field.
\<close>

theorem connect_creates_despite_existing_dispatch:
  "registry_list ''R1'' (service (fresh_proc registered_R1)) = [''AD_1''] \<and>
   \<not> reports_reused (fst (POST registry_create example_env (Parsed connect_R1)
                             (fresh_proc registered_R1))) \<and>
   map_of (body (fst (POST registry_create example_env (Parsed connect_R1)
                             (fresh_proc registered_R1)))) ''dispatchId''
     = Some (JString ''AD_2'') \<and>
   create_calls (snd (POST registry_create example_env (Parsed connect_R1)
                             (fresh_proc registered_R1)))
     = [CreateDispatch ''R1'' ''task-assistant'' (dispatch_metadata connect_R1)]"
  by (simp add: route_defs registered_R1_def registry_list_def)

text \<open>
  C2, amended: every connect request that passes validation makes exactly one call to
  the external service, the create operation for the requested room, whatever is
  registered externally (so also when one dispatch exists, and when none does): it
  never lists the existing dispatches. It never reports \<open>reused = true\<close>, it does not
  touch the tracker, and when the creation succeeds the response is \<open>success = true\<close>
  with the id of the new dispatch and no \<open>reused\<close> field.
\<close>

theorem connect_always_creates:
  assumes "accepted_request e b room"
  shows "api_calls (snd (POST createDispatch e (Parsed b) p))
           = api_calls p @ [CreateDispatch room AGENT_NAME (dispatch_metadata b)] \<and>
         create_calls (snd (POST createDispatch e (Parsed b) p))
           = create_calls p @ [CreateDispatch room AGENT_NAME (dispatch_metadata b)] \<and>
         \<not> reports_reused (fst (POST createDispatch e (Parsed b) p)) \<and>
         tracker (snd (POST createDispatch e (Parsed b) p)) = tracker p \<and>
         (\<forall>did. fst (createDispatch (dispatch_client e) room AGENT_NAME (dispatch_metadata b)
                       (service p)) = Inr did \<longrightarrow>
            fst (POST createDispatch e (Parsed b) p)
              = \<lparr>status = 200,
                 body = [(''success'', JBool True), (''dispatchId'', JString did)]\<rparr>)"
proof -
  from assms have b: "b \<noteq> JNull" by (auto simp: accepted_request_def)
  obtain outcome w where c: "createDispatch (dispatch_client e) room AGENT_NAME
      (dispatch_metadata b) (service p) = (outcome, w)"
    by (cases "createDispatch (dispatch_client e) room AGENT_NAME (dispatch_metadata b) (service p)")
  show ?thesis
    using assms b c
    by (cases b; cases outcome)
      (simp_all add: accepted_request_def POST_def Let_def emit_def create_calls_def
        reports_reused_def failed_to_dispatch_def)
qed

theorem connect_always_creates_witness:
  "accepted_request example_env connect_R1 ''R1'' \<and>
   fst (registry_create (dispatch_client example_env) ''R1'' AGENT_NAME
          (dispatch_metadata connect_R1) (service (fresh_proc registered_R1)))
     = Inr ''AD_2'' \<and>
   api_calls (snd (POST registry_create example_env (Parsed connect_R1)
                     (fresh_proc registered_R1)))
     = [CreateDispatch ''R1'' AGENT_NAME (dispatch_metadata connect_R1)] \<and>
   create_calls (snd (POST registry_create example_env (Parsed connect_R1)
                        (fresh_proc registered_R1)))
     = [CreateDispatch ''R1'' AGENT_NAME (dispatch_metadata connect_R1)] \<and>
   \<not> reports_reused (fst (POST registry_create example_env (Parsed connect_R1)
                             (fresh_proc registered_R1))) \<and>
   fst (POST registry_create example_env (Parsed connect_R1) (fresh_proc registered_R1))
     = \<lparr>status = 200, body = [(''success'', JBool True), (''dispatchId'', JString ''AD_2'')]\<rparr>"
proof -
  have h: "accepted_request example_env connect_R1 ''R1''"
    by (simp add: accepted_request_def example_env_def connect_R1_def unset_def)
  have c: "fst (registry_create (dispatch_client example_env) ''R1'' AGENT_NAME
          (dispatch_metadata connect_R1) (service (fresh_proc registered_R1)))
     = Inr ''AD_2''"
    by (simp add: registry_create_def fresh_proc_def registered_R1_def)
  have "api_calls (fresh_proc registered_R1) = []"
    "create_calls (fresh_proc registered_R1) = []"
    by (simp_all add: create_calls_def fresh_proc_def)
  with connect_always_creates[where e = example_env and b = connect_R1 and room = "''R1''"
      and createDispatch = registry_create and p = "fresh_proc registered_R1"] h c
  show ?thesis by (simp add: reports_reused_def)
qed

text \<open>
  C3, as stated: a failed external creation is retried with exponential backoff before
  the failure is surfaced. The handler calls \<open>createDispatch\<close> once inside its
  \<open>try\<close>: against a service that rejects the creation it issues a single call and
  answers with status 500.
\<close>

theorem failed_create_single_attempt:
  "fst (registry_create (dispatch_client example_env) ''R1'' AGENT_NAME
          (dispatch_metadata connect_R1) (service (fresh_proc no_dispatches)))
     = Inl ''service unavailable'' \<and>
   length (create_calls (snd (POST registry_create example_env (Parsed connect_R1)
                                (fresh_proc no_dispatches)))) = 1 \<and>
   status (fst (POST registry_create example_env (Parsed connect_R1) (fresh_proc no_dispatches)))
     = 500"
  by (simp add: route_defs no_dispatches_def)


text \<open>
  C3, amended: when the external creation fails for a connect request that passes
  validation, the failure is surfaced after that single attempt (no retry, no delay) as a
  status 500 response carrying the error message, and no \<open>trackActivity\<close> call is made:
  the tracker is left as it was.
\<close>

theorem failed_create_not_retried:
  assumes "accepted_request e b room"
    and "fst (createDispatch (dispatch_client e) room AGENT_NAME (dispatch_metadata b)
                (service p)) = Inl message"
  shows "fst (POST createDispatch e (Parsed b) p) = failed_to_dispatch message \<and>
         api_calls (snd (POST createDispatch e (Parsed b) p))
           = api_calls p @ [CreateDispatch room AGENT_NAME (dispatch_metadata b)] \<and>
         tracker (snd (POST createDispatch e (Parsed b) p)) = tracker p"
proof -
  from assms have b: "b \<noteq> JNull" by (auto simp: accepted_request_def)
  obtain outcome w where c: "createDispatch (dispatch_client e) room AGENT_NAME
      (dispatch_metadata b) (service p) = (outcome, w)"
    by (cases "createDispatch (dispatch_client e) room AGENT_NAME (dispatch_metadata b) (service p)")
  show ?thesis
    using assms b c
    by (cases b) (simp_all add: accepted_request_def POST_def Let_def emit_def)
qed

theorem failed_create_not_retried_witness:
  "accepted_request example_env connect_R1 ''R1'' \<and>
   fst (registry_create (dispatch_client example_env) ''R1'' AGENT_NAME
          (dispatch_metadata connect_R1) (service (fresh_proc no_dispatches)))
     = Inl ''service unavailable'' \<and>
   fst (POST registry_create example_env (Parsed connect_R1) (fresh_proc no_dispatches))
     = failed_to_dispatch ''service unavailable'' \<and>
   api_calls (snd (POST registry_create example_env (Parsed connect_R1)
                     (fresh_proc no_dispatches)))
     = [CreateDispatch ''R1'' AGENT_NAME (dispatch_metadata connect_R1)] \<and>
   tracker (snd (POST registry_create example_env (Parsed connect_R1)
                   (fresh_proc no_dispatches))) = new_AgentTracker None"
proof -
  have h: "accepted_request example_env connect_R1 ''R1''"
    by (simp add: accepted_request_def example_env_def connect_R1_def unset_def)
  have f: "fst (registry_create (dispatch_client example_env) ''R1'' AGENT_NAME
          (dispatch_metadata connect_R1) (service (fresh_proc no_dispatches)))
     = Inl ''service unavailable''"
    by (simp add: registry_create_def fresh_proc_def no_dispatches_def)
  have "api_calls (fresh_proc no_dispatches) = []"
    "tracker (fresh_proc no_dispatches) = new_AgentTracker None"
    by (simp_all add: fresh_proc_def)
  with failed_create_not_retried[where e = example_env and b = connect_R1 and room = "''R1''"
      and createDispatch = registry_create and p = "fresh_proc no_dispatches"
      and message = "''service unavailable''"] h f
  show ?thesis by simp
qed


section \<open>The limiter's bucket and aggregation table\<close>

lemmas limiter_defs = log_def shouldLog_def refillTokens_def new_LogRateLimiter_def Let_def
  aggregateMessage_def Map_get_def

lemmas pattern_defs = shouldAggregate_def aggregationPatterns_def test_i_def lower_char_def

lemmas key_defs = getAggregationKey_def is_digit_def timestamp_at_def timestamp_template_def

lemma fst_limiter_run_Cons:
  "fst (limiter_run (c # cs) l) = fst (limiter_run cs (fst (limiter_step c l)))"
  by (simp add: case_prod_beta Let_def)

lemma snd_limiter_run_Cons:
  "snd (limiter_run (c # cs) l)
     = snd (limiter_step c l) @ snd (limiter_run cs (fst (limiter_step c l)))"
  by (simp add: case_prod_beta Let_def)

lemma Math_min_Num: "Math_min (Num a) (Num b) = Num (min a b)"
  by (simp add: min_def)

lemma minus_Num: "Num a - Num b = Num (a - b)"
  by (simp add: minus_number_def)

lemma less_Num: "Num a < Num b \<longleftrightarrow> a < b"
  by (auto simp: less_number_def)

lemma less_one_number: "x < (1::number) \<Longrightarrow> \<not> 1 \<le> x"
  by (simp add: less_number_def)

lemmas number_simps = zero_number_def one_number_def Math_min_Num minus_Num less_Num

lemma is_finiteE: "is_finite x \<Longrightarrow> \<exists>r. x = Num r"
  by (cases x) simp_all

lemma finite_bucketE:
  assumes "finite_bucket l"
  shows "\<exists>r b x. maxLogsPerSecond l = Num r \<and> bucketSize l = Num b \<and> tokens l = Num x"
  using assms unfolding finite_bucket_def by (blast dest: is_finiteE)

lemma refill_config:
  "maxLogsPerSecond (refillTokens now l) = maxLogsPerSecond l"
  "bucketSize (refillTokens now l) = bucketSize l"
  "lastRefillTime (refillTokens now l) = now"
  by (simp_all add: refillTokens_def Let_def)

lemma refill_Num:
  assumes "maxLogsPerSecond l = Num r" "bucketSize l = Num b" "tokens l = Num x"
  shows "tokens (refillTokens now l)
           = Num (min b (x + rat_of_int (now - lastRefillTime l) / 1000 * r))"
  using assms by (simp add: refillTokens_def Let_def Math_min_Num)

lemma shouldLog_config:
  "maxLogsPerSecond (fst (shouldLog now lvl l)) = maxLogsPerSecond l"
  "bucketSize (fst (shouldLog now lvl l)) = bucketSize l"
  "lastRefillTime (fst (shouldLog now lvl l)) = now"
  by (simp_all add: shouldLog_def Let_def refill_config)

lemma shouldLog_Num:
  assumes "maxLogsPerSecond l = Num r" "bucketSize l = Num b" "tokens l = Num x"
  shows "\<exists>y. tokens (fst (shouldLog now lvl l)) = Num y \<and>
             (y = min b (x + rat_of_int (now - lastRefillTime l) / 1000 * r) \<or>
              y = min b (x + rat_of_int (now - lastRefillTime l) / 1000 * r) - 1 \<and> 0 \<le> y)"
  using refill_Num[OF assms, of now]
  by (simp add: shouldLog_def Let_def number_simps)

lemma aggregate_frame:
  "tokens (aggregateMessage now lvl m l) = tokens l"
  "bucketSize (aggregateMessage now lvl m l) = bucketSize l"
  "maxLogsPerSecond (aggregateMessage now lvl m l) = maxLogsPerSecond l"
  "lastRefillTime (aggregateMessage now lvl m l) = lastRefillTime l"
  "lastAggregationCleanup (aggregateMessage now lvl m l) = lastAggregationCleanup l"
  by (simp_all add: aggregateMessage_def Let_def split: option.split)

lemma log_fst:
  "fst (log now lvl m args l)
     = (if shouldAggregate m then aggregateMessage now lvl m l else fst (shouldLog now lvl l))"
  by (simp add: log_def case_prod_beta Let_def)

lemma tick_frame:
  "tokens (fst (report_tick now l)) = tokens l"
  "bucketSize (fst (report_tick now l)) = bucketSize l"
  "maxLogsPerSecond (fst (report_tick now l)) = maxLogsPerSecond l"
  "lastRefillTime (fst (report_tick now l)) = lastRefillTime l"
  by (simp_all add: report_tick_def flushAggregatedMessages_def resetDroppedCount_def Let_def)

lemma reset_frame:
  "tokens (resetDroppedCount l) = tokens l"
  "bucketSize (resetDroppedCount l) = bucketSize l"
  "maxLogsPerSecond (resetDroppedCount l) = maxLogsPerSecond l"
  "lastRefillTime (resetDroppedCount l) = lastRefillTime l"
  by (simp_all add: resetDroppedCount_def)

text \<open>
  One step from a bucket of finite numbers: the numbers stay finite, the rate and the
  capacity stay as they are, the count stays below the capacity, and it stays at or above
  zero when the rate is not negative and the clock has not gone back.
\<close>

lemma step_Num:
  assumes "maxLogsPerSecond l = Num r" "bucketSize l = Num b" "tokens l = Num x"
  shows "maxLogsPerSecond (fst (limiter_step c l)) = Num r \<and>
         bucketSize (fst (limiter_step c l)) = Num b \<and>
         (\<exists>y. tokens (fst (limiter_step c l)) = Num y \<and>
              (x \<le> b \<longrightarrow> y \<le> b) \<and>
              (0 \<le> x \<and> 0 \<le> b \<and> 0 \<le> r \<and> (\<forall>t \<in> set (clock_reading c). lastRefillTime l \<le> t)
                 \<longrightarrow> 0 \<le> y))"
proof (cases c)
  case (Log now lvl m args)
  show ?thesis
  proof (cases "shouldAggregate m")
    case True
    with Log assms show ?thesis by (simp add: log_fst aggregate_frame)
  next
    case False
    from shouldLog_Num[OF assms, of now lvl] obtain y where
      y: "tokens (fst (shouldLog now lvl l)) = Num y"
         "y = min b (x + rat_of_int (now - lastRefillTime l) / 1000 * r) \<or>
          y = min b (x + rat_of_int (now - lastRefillTime l) / 1000 * r) - 1 \<and> 0 \<le> y"
      by blast
    have u: "y \<le> b" using y(2) by auto
    have lo: "0 \<le> y" if "0 \<le> x" "0 \<le> b" "0 \<le> r" "lastRefillTime l \<le> now"
    proof -
      from that(4) have "0 \<le> rat_of_int (now - lastRefillTime l) / 1000" by simp
      then have "0 \<le> rat_of_int (now - lastRefillTime l) / 1000 * r"
        using that(3) by (rule mult_nonneg_nonneg)
      with that(1) have "0 \<le> x + rat_of_int (now - lastRefillTime l) / 1000 * r" by simp
      with that(2) have "0 \<le> min b (x + rat_of_int (now - lastRefillTime l) / 1000 * r)"
        by simp
      with y(2) show ?thesis by auto
    qed
    from False Log assms y(1) u lo show ?thesis
      by (simp add: log_fst shouldLog_config)
  qed
next
  case (Tick now)
  with assms show ?thesis by (simp add: tick_frame)
next
  case ResetDroppedCount
  with assms show ?thesis by (simp add: reset_frame)
qed

lemma step_refill_time:
  "lastRefillTime (fst (limiter_step c l)) = lastRefillTime l \<or>
   clock_reading c = [lastRefillTime (fst (limiter_step c l))]"
  by (cases c) (simp_all add: log_fst aggregate_frame shouldLog_config tick_frame reset_frame)

lemma run_upper:
  "maxLogsPerSecond l = Num r \<Longrightarrow> bucketSize l = Num b \<Longrightarrow> tokens l = Num x \<Longrightarrow> x \<le> b
     \<Longrightarrow> tokens (fst (limiter_run cs l)) \<le> bucketSize (fst (limiter_run cs l))"
proof (induction cs arbitrary: l x)
  case Nil
  then show ?case by simp
next
  case (Cons c cs)
  from step_Num[OF Cons.prems(1,2,3), of c] Cons.prems(4) obtain y where
    "maxLogsPerSecond (fst (limiter_step c l)) = Num r"
    "bucketSize (fst (limiter_step c l)) = Num b"
    "tokens (fst (limiter_step c l)) = Num y" "y \<le> b"
    by blast
  from Cons.IH[OF this] show ?case by (simp only: fst_limiter_run_Cons)
qed

lemma run_lower:
  "maxLogsPerSecond l = Num r \<Longrightarrow> bucketSize l = Num b \<Longrightarrow> tokens l = Num x
     \<Longrightarrow> 0 \<le> r \<Longrightarrow> 0 \<le> b \<Longrightarrow> 0 \<le> x \<Longrightarrow> sorted (lastRefillTime l # clock_readings cs)
     \<Longrightarrow> 0 \<le> tokens (fst (limiter_run cs l))"
proof (induction cs arbitrary: l x)
  case Nil
  then show ?case by (simp add: number_simps)
next
  case (Cons c cs)
  let ?l = "fst (limiter_step c l)"
  from Cons.prems(7) have s: "sorted (lastRefillTime l # clock_reading c @ clock_readings cs)"
    by (simp add: clock_readings_def)
  then have b: "\<forall>t \<in> set (clock_reading c). lastRefillTime l \<le> t" by auto
  from step_Num[OF Cons.prems(1,2,3), of c] Cons.prems(4,5,6) b obtain y where
    y: "maxLogsPerSecond ?l = Num r" "bucketSize ?l = Num b" "tokens ?l = Num y" "0 \<le> y"
    by blast
  have 3: "sorted (lastRefillTime ?l # clock_readings cs)"
  proof -
    from step_refill_time[of c l] show ?thesis
    proof
      assume "lastRefillTime ?l = lastRefillTime l"
      with s show ?thesis by (auto simp: sorted_append)
    next
      assume "clock_reading c = [lastRefillTime ?l]"
      with s show ?thesis by auto
    qed
  qed
  from Cons.IH[OF y(1,2,3) Cons.prems(4,5) y(4) 3] show ?case
    by (simp only: fst_limiter_run_Cons)
qed

lemma Map_set_absent: "Map_get m k = None \<Longrightarrow> Map_set k v m = m @ [(k, v)]"
proof (induction m)
  case Nil
  then show ?case by simp
next
  case (Cons p ps)
  then show ?case by (cases p) (auto simp: Map_get_def split: if_splits)
qed

lemma noisy_log:
  assumes "shouldAggregate message"
  shows "log now lvl message args l = (aggregateMessage now lvl message l, [])"
  using assms by (simp add: log_def)

lemma aggregate_count:
  "map_option count (Map_get (messageAggregation (aggregateMessage now lvl message l))
                      (getAggregationKey message))
     = Some (case Map_get (messageAggregation l) (getAggregationKey message) of
               None \<Rightarrow> 1 | Some d \<Rightarrow> count d + 1)"
  by (simp add: aggregateMessage_def Let_def Map_get_set split: option.split)

lemma aggregate_only_table:
  "aggregateMessage now lvl message l
     = l\<lparr>messageAggregation := messageAggregation (aggregateMessage now lvl message l)\<rparr>"
  by (simp add: aggregateMessage_def Let_def split: option.split)

lemma noisy_step_single:
  assumes "is_noisy_log k c" and "messageAggregation l = [(k, d)]"
  shows "snd (limiter_step c l) = [] \<and>
         (\<exists>d'. messageAggregation (fst (limiter_step c l)) = [(k, d')] \<and>
               count d' = count d + 1 \<and> level d' = level d) \<and>
         tokens (fst (limiter_step c l)) = tokens l \<and>
         lastAggregationCleanup (fst (limiter_step c l)) = lastAggregationCleanup l"
proof (cases c)
  case (Log now lvl message args)
  with assms(1) have m: "shouldAggregate message" "getAggregationKey message = k" by simp_all
  show ?thesis
    using Log m assms(2) by (simp add: noisy_log aggregateMessage_def Let_def Map_get_def)
next
  case (Tick now)
  with assms(1) show ?thesis by simp
next
  case ResetDroppedCount
  with assms(1) show ?thesis by simp
qed

lemma noisy_run_single:
  "\<forall>c \<in> set cs. is_noisy_log k c \<Longrightarrow> messageAggregation l = [(k, d)] \<Longrightarrow>
   snd (limiter_run cs l) = [] \<and>
   (\<exists>d'. messageAggregation (fst (limiter_run cs l)) = [(k, d')] \<and>
         count d' = count d + length cs \<and> level d' = level d) \<and>
   tokens (fst (limiter_run cs l)) = tokens l \<and>
   lastAggregationCleanup (fst (limiter_run cs l)) = lastAggregationCleanup l"
proof (induction cs arbitrary: l d)
  case Nil
  then show ?case by simp
next
  case (Cons c cs)
  from Cons.prems have c: "is_noisy_log k c" and r: "\<forall>c \<in> set cs. is_noisy_log k c" by simp_all
  from noisy_step_single[OF c Cons.prems(2)] obtain d1 where
    s: "snd (limiter_step c l) = []"
       "messageAggregation (fst (limiter_step c l)) = [(k, d1)]"
       "count d1 = count d + 1" "level d1 = level d"
       "tokens (fst (limiter_step c l)) = tokens l"
       "lastAggregationCleanup (fst (limiter_step c l)) = lastAggregationCleanup l"
    by blast
  from Cons.IH[OF r s(2)] s show ?case
    by (simp only: fst_limiter_run_Cons snd_limiter_run_Cons) auto
qed

lemma noisy_run_from_empty:
  assumes "\<forall>c \<in> set cs. is_noisy_log k c" and "cs \<noteq> []" and "messageAggregation l = []"
  shows "snd (limiter_run cs l) = [] \<and>
   (\<exists>d. messageAggregation (fst (limiter_run cs l)) = [(k, d)] \<and>
        count d = length cs \<and> level d = first_level cs) \<and>
   tokens (fst (limiter_run cs l)) = tokens l \<and>
   lastAggregationCleanup (fst (limiter_run cs l)) = lastAggregationCleanup l"
proof -
  from assms(2) obtain c rest where cs: "cs = c # rest" by (cases cs) auto
  with assms(1) have "is_noisy_log k c" and r: "\<forall>c \<in> set rest. is_noisy_log k c" by simp_all
  then obtain now lvl message args where c: "c = Log now lvl message args"
    and m: "shouldAggregate message" "getAggregationKey message = k"
    by (cases c) auto
  let ?l = "fst (limiter_step c l)"
  have s: "snd (limiter_step c l) = []"
    "messageAggregation ?l = [(k, \<lparr>count = 1, firstSeen = now, lastSeen = now, level = lvl\<rparr>)]"
    "tokens ?l = tokens l" "lastAggregationCleanup ?l = lastAggregationCleanup l"
    using c m assms(3) by (simp_all add: noisy_log aggregateMessage_def Let_def Map_get_def)
  from noisy_run_single[OF r s(2)] s c cs show ?thesis
    by (simp only: fst_limiter_run_Cons snd_limiter_run_Cons) auto
qed

lemma key_length: "length (getAggregationKey message) \<le> 100"
  by (simp add: getAggregationKey_def)

lemma fst_limiter_run_append:
  "fst (limiter_run (xs @ ys) l) = fst (limiter_run ys (fst (limiter_run xs l)))"
proof (induction xs arbitrary: l)
  case Nil
  show ?case by simp
next
  case (Cons c cs)
  show ?case using Cons.IH[of "fst (limiter_step c l)"]
    by (simp only: append_Cons fst_limiter_run_Cons)
qed

lemma snd_limiter_run_append:
  "snd (limiter_run (xs @ ys) l)
     = snd (limiter_run xs l) @ snd (limiter_run ys (fst (limiter_run xs l)))"
proof (induction xs arbitrary: l)
  case Nil
  show ?case by simp
next
  case (Cons c cs)
  show ?case using Cons.IH[of "fst (limiter_step c l)"]
    by (simp only: append_Cons fst_limiter_run_Cons snd_limiter_run_Cons append_assoc)
qed

lemma Map_set_other_key:
  "k' \<noteq> k \<Longrightarrow> filter (\<lambda>p. fst p = k) (Map_set k' v m) = filter (\<lambda>p. fst p = k) m"
  by (induction m) auto

lemma Map_get_None_filter: "Map_get m k = None \<Longrightarrow> filter (\<lambda>p. fst p = k) m = []"
  by (auto simp: Map_get_def map_of_eq_None_iff filter_empty_conv image_iff)

lemma shouldLog_table:
  "messageAggregation (fst (shouldLog now lvl l)) = messageAggregation l"
  "lastAggregationCleanup (fst (shouldLog now lvl l)) = lastAggregationCleanup l"
  by (simp_all add: shouldLog_def refillTokens_def Let_def)

lemma other_step:
  assumes "shouldAggregate message" and "\<not> is_tick c"
    and "\<not> is_noisy_log (getAggregationKey message) c"
  shows "filter (\<lambda>p. fst p = getAggregationKey message)
             (messageAggregation (fst (limiter_step c l)))
           = filter (\<lambda>p. fst p = getAggregationKey message) (messageAggregation l) \<and>
         lastAggregationCleanup (fst (limiter_step c l)) = lastAggregationCleanup l \<and>
         (\<forall>x \<in> set (snd (limiter_step c l)). \<not> mentions message (getAggregationKey message) x)"
proof (cases c)
  case (Log now lvl m args)
  show ?thesis
  proof (cases "shouldAggregate m")
    case True
    with assms(3) Log have "getAggregationKey m \<noteq> getAggregationKey message" by simp
    with True Log show ?thesis
      by (simp add: noisy_log aggregateMessage_def Let_def Map_set_other_key split: option.split)
  next
    case False
    with assms(1) have "m \<noteq> message" by auto
    with False Log show ?thesis
      by (simp add: log_def case_prod_beta shouldLog_table)
  qed
next
  case (Tick now)
  with assms(2) show ?thesis by simp
next
  case ResetDroppedCount
  then show ?thesis by (simp add: resetDroppedCount_def)
qed

lemma other_run:
  assumes "shouldAggregate message"
  shows "\<forall>c \<in> set cs. \<not> is_tick c \<and> \<not> is_noisy_log (getAggregationKey message) c \<Longrightarrow>
         filter (\<lambda>p. fst p = getAggregationKey message)
             (messageAggregation (fst (limiter_run cs l)))
           = filter (\<lambda>p. fst p = getAggregationKey message) (messageAggregation l) \<and>
         lastAggregationCleanup (fst (limiter_run cs l)) = lastAggregationCleanup l \<and>
         (\<forall>x \<in> set (snd (limiter_run cs l)). \<not> mentions message (getAggregationKey message) x)"
proof (induction cs arbitrary: l)
  case Nil
  show ?case by simp
next
  case (Cons c cs)
  from Cons.prems have c: "\<not> is_tick c" "\<not> is_noisy_log (getAggregationKey message) c"
    and r: "\<forall>c \<in> set cs. \<not> is_tick c \<and> \<not> is_noisy_log (getAggregationKey message) c"
    by simp_all
  from other_step[OF assms c, of l] Cons.IH[OF r, of "fst (limiter_step c l)"]
  show ?case
    by (simp only: fst_limiter_run_Cons snd_limiter_run_Cons) auto
qed

lemma tick_output:
  assumes "aggregationWindowMs \<le> t - lastAggregationCleanup l"
    and "filter (\<lambda>p. fst p = k) (messageAggregation l) = [(k, d)]" and "count d = 1"
  shows "\<forall>x \<in> set (snd (report_tick t l)). \<not> mentions message k x"
    and "messageAggregation (fst (report_tick t l)) = []"
proof -
  have s: "\<forall>x \<in> set (summary_lines (messageAggregation l)). \<not> mentions message k x"
  proof
    fix x assume "x \<in> set (summary_lines (messageAggregation l))"
    then obtain k' d' where kd: "(k', d') \<in> set (messageAggregation l)" "1 < count d'"
      "x = (ConsoleLog, AggregatedSummary (level d') (count d') (aggregationWindowMs div 1000) k')"
      by (auto simp: summary_lines_def)
    have "k' \<noteq> k"
    proof
      assume "k' = k"
      with kd(1) have "(k, d') \<in> set (filter (\<lambda>p. fst p = k) (messageAggregation l))" by simp
      with assms(2) have "d' = d" by simp
      with kd(2) assms(3) show False by simp
    qed
    with kd(3) show "\<not> mentions message k x" by simp
  qed
  from assms(1) have n: "\<not> t - lastAggregationCleanup l < aggregationWindowMs" by simp
  from n s show "\<forall>x \<in> set (snd (report_tick t l)). \<not> mentions message k x"
    by (auto simp: report_tick_def flushAggregatedMessages_def Let_def)
  from n show "messageAggregation (fst (report_tick t l)) = []"
    by (simp add: report_tick_def flushAggregatedMessages_def Let_def resetDroppedCount_def)
qed

lemma replace_digit_runs_no_digit: "c \<in> set (replace_digit_runs s) \<Longrightarrow> \<not> is_digit c"
proof (induction s rule: replace_digit_runs.induct)
  case 1
  then show ?case by simp
next
  case (2 d ds)
  then show ?case by (auto simp: is_digit_def split: if_splits)
qed

lemma timestamp_at_digit: "timestamp_at (c # cs) \<Longrightarrow> is_digit c"
  by (simp add: timestamp_at_def timestamp_template_def)

lemma replace_timestamps_no_digit:
  "\<forall>c \<in> set s. \<not> is_digit c \<Longrightarrow> replace_timestamps s = s"
proof (induction s)
  case Nil
  then show ?case by simp
next
  case (Cons c cs)
  then have "\<not> timestamp_at (c # cs)" using timestamp_at_digit[of c cs] by auto
  with Cons show ?case by simp
qed

lemma getAggregationKey_digits:
  "getAggregationKey message = take 100 (replace_digit_runs message)"
  "\<forall>c \<in> set (getAggregationKey message). \<not> is_digit c"
proof -
  have n: "\<forall>c \<in> set (replace_digit_runs message). \<not> is_digit c"
    using replace_digit_runs_no_digit by blast
  then show k: "getAggregationKey message = take 100 (replace_digit_runs message)"
    by (simp add: getAggregationKey_def replace_timestamps_no_digit)
  show "\<forall>c \<in> set (getAggregationKey message). \<not> is_digit c"
    unfolding k using n by (auto dest: in_set_takeD)
qed

section \<open>Claims about the log rate limiter\<close>




text \<open>
  C6, as stated: \<open>0 \<le> tokens \<le> bucketSize\<close> in every reachable state. The refill adds
  \<open>elapsed \<times> rate\<close> with nothing keeping the sum from going below zero: after one token
  is spent at clock reading 1000, a log call whose clock reading is 0 leaves \<open>-1\<close> tokens.
\<close>

theorem clock_step_back_counterexample:
  "\<not> tokens_in_range (fst (limiter_run [Log 1000 INFO ''a'' [], Log 0 INFO ''b'' []]
                               (new_LogRateLimiter 1000 None)))"
proof -
  have "\<not> shouldAggregate ''a''" "\<not> shouldAggregate ''b''" by (simp_all add: pattern_defs)
  then have "tokens (fst (limiter_run [Log 1000 INFO ''a'' [], Log 0 INFO ''b'' []]
                               (new_LogRateLimiter 1000 None))) = Num (- 1)"
    by (simp add: limiter_defs case_prod_beta number_simps)
  then show ?thesis by (simp add: tokens_in_range_def number_simps)
qed

text \<open>
  The invariant also fails without any clock: a rate that is not a finite number puts
  \<open>NaN\<close> into the bucket, at once for a \<open>NaN\<close> rate (\<open>parseInt\<close> of a
  \<open>LOG_RATE_LIMIT\<close> that is not numeric) and at the first refill for an infinite one
  (\<open>0 * Infinity\<close>), and \<open>NaN\<close> compares false with everything.
\<close>

lemma NaN_rate_out_of_range:
  "tokens (new_LogRateLimiter 0 (Some NaN)) = NaN \<and>
   \<not> tokens_in_range (new_LogRateLimiter 0 (Some NaN))"
  by (simp add: new_LogRateLimiter_def Let_def tokens_in_range_def)

lemma infinite_rate_out_of_range:
  "tokens (fst (limiter_run [Log 0 INFO ''a'' []] (new_LogRateLimiter 0 (Some PosInfinity))))
     = NaN \<and>
   \<not> tokens_in_range
        (fst (limiter_run [Log 0 INFO ''a'' []] (new_LogRateLimiter 0 (Some PosInfinity))))"
proof -
  have "\<not> shouldAggregate ''a''" by (simp add: pattern_defs)
  then have "tokens (fst (limiter_run [Log 0 INFO ''a'' []]
                (new_LogRateLimiter 0 (Some PosInfinity)))) = NaN"
    by (simp add: limiter_defs case_prod_beta number_simps)
  then show ?thesis by (simp add: tokens_in_range_def)
qed

text \<open>
  Both bounds are stated below for clock readings that never decrease. There every
  refill adds an amount of the sign of the rate, so that a product too large for a
  double cannot meet an infinity of the other sign, and the exact arithmetic used here
  for finite numbers gives the same comparisons as the code's doubles.
\<close>

text \<open>
  C6, amended: the bucket starts full. When the configured rate is a finite number and
  the clock readings of the constructor and of the later calls never decrease,
  \<open>tokens \<le> bucketSize\<close> holds in every reachable state; when in addition the rate is not
  negative, \<open>0 \<le> tokens \<le> bucketSize\<close> holds in every reachable state.
\<close>

theorem tokens_within_bucket:
  "tokens (new_LogRateLimiter start rate) = bucketSize (new_LogRateLimiter start rate) \<and>
   (is_finite (maxLogsPerSecond (new_LogRateLimiter start rate)) \<and>
    sorted (start # clock_readings calls) \<longrightarrow>
      tokens (fst (limiter_run calls (new_LogRateLimiter start rate)))
        \<le> bucketSize (fst (limiter_run calls (new_LogRateLimiter start rate)))) \<and>
   (is_finite (maxLogsPerSecond (new_LogRateLimiter start rate)) \<and>
    0 \<le> maxLogsPerSecond (new_LogRateLimiter start rate) \<and>
    sorted (start # clock_readings calls)
      \<longrightarrow> tokens_in_range (fst (limiter_run calls (new_LogRateLimiter start rate))))"
proof -
  let ?n = "new_LogRateLimiter start rate"
  have f: "tokens ?n = bucketSize ?n" "bucketSize ?n = maxLogsPerSecond ?n"
    "tokens ?n = maxLogsPerSecond ?n" "lastRefillTime ?n = start"
    by (simp_all add: new_LogRateLimiter_def Let_def)
  have u: "tokens (fst (limiter_run calls ?n)) \<le> bucketSize (fst (limiter_run calls ?n))"
    if "is_finite (maxLogsPerSecond ?n)"
  proof -
    from that obtain r where r: "maxLogsPerSecond ?n = Num r" by (blast dest: is_finiteE)
    then show ?thesis using f by (intro run_upper[where r = r and b = r and x = r]) simp_all
  qed
  have lo: "0 \<le> tokens (fst (limiter_run calls ?n))"
    if "is_finite (maxLogsPerSecond ?n)" "0 \<le> maxLogsPerSecond ?n"
      "sorted (start # clock_readings calls)"
  proof -
    from that(1) obtain r where r: "maxLogsPerSecond ?n = Num r" by (blast dest: is_finiteE)
    with that(2) have "0 \<le> r" by (simp add: number_simps)
    then show ?thesis
      using r f that(3) by (intro run_lower[where r = r and b = r and x = r]) simp_all
  qed
  from f(1) u lo show ?thesis by (simp add: tokens_in_range_def)
qed

theorem tokens_within_bucket_witness:
  "is_finite (maxLogsPerSecond (new_LogRateLimiter 0 (Some (Num 1)))) \<and>
   0 \<le> maxLogsPerSecond (new_LogRateLimiter 0 (Some (Num 1))) \<and>
   sorted (0 # clock_readings [Log 0 INFO ''a'' [], Log 500 WARN ''b'' [], Tick 60000]) \<and>
   tokens (fst (limiter_run [Log 0 INFO ''a'' [], Log 500 WARN ''b'' [], Tick 60000]
                  (new_LogRateLimiter 0 (Some (Num 1)))))
     \<le> bucketSize (fst (limiter_run [Log 0 INFO ''a'' [], Log 500 WARN ''b'' [], Tick 60000]
                          (new_LogRateLimiter 0 (Some (Num 1))))) \<and>
   tokens_in_range (fst (limiter_run [Log 0 INFO ''a'' [], Log 500 WARN ''b'' [], Tick 60000]
                           (new_LogRateLimiter 0 (Some (Num 1)))))"
proof -
  note T = tokens_within_bucket[where start = 0 and rate = "Some (Num 1)"
      and calls = "[Log 0 INFO ''a'' [], Log 500 WARN ''b'' [], Tick 60000]"]
  have h: "is_finite (maxLogsPerSecond (new_LogRateLimiter 0 (Some (Num 1))))"
    by (simp add: new_LogRateLimiter_def Let_def)
  have p: "0 \<le> maxLogsPerSecond (new_LogRateLimiter 0 (Some (Num 1)))"
    by (simp add: new_LogRateLimiter_def Let_def number_simps)
  have s: "sorted (0 # clock_readings [Log 0 INFO ''a'' [], Log 500 WARN ''b'' [], Tick 60000])"
    by (simp add: clock_readings_def)
  from h p s T[THEN conjunct2, THEN conjunct1, THEN mp, OF conjI[OF h s]]
    T[THEN conjunct2, THEN conjunct2, THEN mp, OF conjI[OF h conjI[OF p s]]]
  show ?thesis by (intro conjI)
qed

text \<open>
  Aggregation of a noisy message. A log call whose message matches an aggregation
  pattern emits nothing and leaves the token count as it is; it adds one to the counter
  stored under the key, which has at most 100 characters and in which every run of
  digits has become \<open>N\<close>. Two or more such calls for one key, starting from an empty
  table, emit nothing, and the next flush that is due emits exactly one summary line,
  for that key, with the number of the calls (at the level of the first call).
\<close>

lemma noisy_messages_are_aggregated:
  "(shouldAggregate message \<longrightarrow>
      log now lvl message args l = (aggregateMessage now lvl message l, []) \<and>
      tokens (aggregateMessage now lvl message l) = tokens l \<and>
      map_option count (Map_get (messageAggregation (aggregateMessage now lvl message l))
                          (getAggregationKey message))
        = Some (case Map_get (messageAggregation l) (getAggregationKey message) of
                  None \<Rightarrow> 1 | Some d \<Rightarrow> count d + 1) \<and>
      length (getAggregationKey message) \<le> 100 \<and>
      getAggregationKey message = take 100 (replace_digit_runs message) \<and>
      (\<forall>c \<in> set (getAggregationKey message). \<not> is_digit c)) \<and>
   ((\<forall>c \<in> set calls. is_noisy_log k c) \<and> 1 < length calls \<and> messageAggregation l = [] \<and>
    aggregationWindowMs \<le> t - lastAggregationCleanup l \<longrightarrow>
      snd (limiter_run calls l) = [] \<and>
      tokens (fst (limiter_run calls l)) = tokens l \<and>
      snd (flushAggregatedMessages t (fst (limiter_run calls l)))
        = [(ConsoleLog, AggregatedSummary (first_level calls) (length calls) 60 k)])"
proof (intro conjI impI)
  assume "shouldAggregate message"
  then show "log now lvl message args l = (aggregateMessage now lvl message l, [])"
    by (rule noisy_log)
  show "tokens (aggregateMessage now lvl message l) = tokens l"
    by (simp add: aggregateMessage_def Let_def split: option.split)
  show "map_option count (Map_get (messageAggregation (aggregateMessage now lvl message l))
                          (getAggregationKey message))
        = Some (case Map_get (messageAggregation l) (getAggregationKey message) of
                  None \<Rightarrow> 1 | Some d \<Rightarrow> count d + 1)"
    by (rule aggregate_count)
  show "length (getAggregationKey message) \<le> 100" by (rule key_length)
  show "getAggregationKey message = take 100 (replace_digit_runs message)"
    by (rule getAggregationKey_digits)
  show "\<forall>c \<in> set (getAggregationKey message). \<not> is_digit c"
    by (rule getAggregationKey_digits)
next
  assume h: "(\<forall>c \<in> set calls. is_noisy_log k c) \<and> 1 < length calls \<and>
    messageAggregation l = [] \<and> aggregationWindowMs \<le> t - lastAggregationCleanup l"
  then have ne: "calls \<noteq> []" by auto
  from h noisy_run_from_empty[OF _ ne, of k l] obtain d where
    r: "snd (limiter_run calls l) = []"
       "messageAggregation (fst (limiter_run calls l)) = [(k, d)]"
       "count d = length calls" "level d = first_level calls"
       "tokens (fst (limiter_run calls l)) = tokens l"
       "lastAggregationCleanup (fst (limiter_run calls l)) = lastAggregationCleanup l"
    by auto
  show "snd (limiter_run calls l) = []" by (rule r(1))
  show "tokens (fst (limiter_run calls l)) = tokens l" by (rule r(5))
  from h have "\<not> t - lastAggregationCleanup l < aggregationWindowMs" by simp
  with r h show "snd (flushAggregatedMessages t (fst (limiter_run calls l)))
        = [(ConsoleLog, AggregatedSummary (first_level calls) (length calls) 60 k)]"
    by (simp add: flushAggregatedMessages_def summary_lines_def aggregationWindowMs_def)
qed

text \<open>
  One hundred health checks in one window, from a fresh limiter: nothing is emitted at
  the calls, and the flush emits one summary line with count 100.
\<close>

lemma hundred_health_checks:
  "shouldAggregate ''health check 7 ok'' \<and>
   log 5 INFO ''health check 7 ok'' [] (new_LogRateLimiter 0 None)
     = (aggregateMessage 5 INFO ''health check 7 ok'' (new_LogRateLimiter 0 None), []) \<and>
   getAggregationKey ''health check 7 ok'' = ''health check N ok'' \<and>
   snd (limiter_run (replicate 100 (Log 5 INFO ''health check 7 ok'' []))
          (new_LogRateLimiter 0 None)) = [] \<and>
   snd (flushAggregatedMessages 60000
          (fst (limiter_run (replicate 100 (Log 5 INFO ''health check 7 ok'' []))
                  (new_LogRateLimiter 0 None))))
     = [(ConsoleLog, AggregatedSummary INFO 100 60 ''health check N ok'')]"
proof -
  note T = noisy_messages_are_aggregated[where message = "''health check 7 ok''" and now = 5
      and lvl = INFO and args = "[]" and l = "new_LogRateLimiter 0 None"
      and calls = "replicate 100 (Log 5 INFO ''health check 7 ok'' [])"
      and k = "''health check N ok''" and t = 60000]
  have a: "shouldAggregate ''health check 7 ok''" by (simp add: pattern_defs)
  have k: "getAggregationKey ''health check 7 ok'' = ''health check N ok''"
    by (simp add: key_defs)
  have n: "\<forall>c \<in> set (replicate 100 (Log 5 INFO ''health check 7 ok'' [])).
       is_noisy_log ''health check N ok'' c"
    using a k by simp
  have len: "1 < length (replicate 100 (Log 5 INFO ''health check 7 ok'' []))" by simp
  have e: "messageAggregation (new_LogRateLimiter 0 None) = []"
    by (simp add: new_LogRateLimiter_def Let_def)
  have w: "aggregationWindowMs \<le> 60000 - lastAggregationCleanup (new_LogRateLimiter 0 None)"
    by (simp add: new_LogRateLimiter_def Let_def aggregationWindowMs_def)
  have f: "first_level (replicate 100 (Log 5 INFO ''health check 7 ok'' [])) = INFO"
    by (simp add: numeral_eq_Suc)
  have g: "length (replicate 100 (Log 5 INFO ''health check 7 ok'' [])) = 100" by simp
  from T[THEN conjunct1, THEN mp, OF a]
  have c1: "log 5 INFO ''health check 7 ok'' [] (new_LogRateLimiter 0 None)
     = (aggregateMessage 5 INFO ''health check 7 ok'' (new_LogRateLimiter 0 None), [])"
    by (rule conjunct1)
  from T[THEN conjunct2, THEN mp, OF conjI[OF n conjI[OF len conjI[OF e w]]]]
  have c2: "snd (limiter_run (replicate 100 (Log 5 INFO ''health check 7 ok'' []))
          (new_LogRateLimiter 0 None)) = []"
    "snd (flushAggregatedMessages 60000
          (fst (limiter_run (replicate 100 (Log 5 INFO ''health check 7 ok'' []))
                  (new_LogRateLimiter 0 None))))
     = [(ConsoleLog, AggregatedSummary INFO 100 60 ''health check N ok'')]"
    unfolding f g by blast+
  from a c1 k c2 show ?thesis by (intro conjI)
qed


text \<open>
  C9: a message that matches an aggregation pattern and whose key occurs once in a
  window (the other calls of the window are log calls for other keys or other messages)
  is not emitted when it is logged, at any level, and no line of the whole window,
  including the flush that ends it, carries the message or a summary of its key; the
  flush clears the table.
\<close>

theorem single_occurrence_never_emitted:
  assumes "shouldAggregate message"
    and "Map_get (messageAggregation l) (getAggregationKey message) = None"
    and "\<forall>c \<in> set (earlier @ later).
           \<not> is_tick c \<and> \<not> is_noisy_log (getAggregationKey message) c"
    and "aggregationWindowMs \<le> t - lastAggregationCleanup l"
  shows "snd (log now lvl message args (fst (limiter_run earlier l))) = [] \<and>
         (\<forall>x \<in> set (snd (limiter_run
                 (earlier @ [Log now lvl message args] @ later @ [Tick t]) l)).
            \<not> mentions message (getAggregationKey message) x) \<and>
         messageAggregation (fst (limiter_run
                 (earlier @ [Log now lvl message args] @ later @ [Tick t]) l)) = []"
proof -
  let ?k = "getAggregationKey message"
  let ?d = "\<lparr>count = 1, firstSeen = now, lastSeen = now, level = lvl\<rparr>"
  let ?l1 = "fst (limiter_run earlier l)"
  let ?l2 = "fst (limiter_step (Log now lvl message args) ?l1)"
  let ?l3 = "fst (limiter_run later ?l2)"
  from assms(3) have e: "\<forall>c \<in> set earlier. \<not> is_tick c \<and> \<not> is_noisy_log ?k c"
    and a: "\<forall>c \<in> set later. \<not> is_tick c \<and> \<not> is_noisy_log ?k c" by simp_all
  from other_run[OF assms(1) e, of l] assms(2)
  have 1: "filter (\<lambda>p. fst p = ?k) (messageAggregation ?l1) = []"
    "lastAggregationCleanup ?l1 = lastAggregationCleanup l"
    "\<forall>x \<in> set (snd (limiter_run earlier l)). \<not> mentions message ?k x"
    by (simp_all add: Map_get_None_filter)
  from 1(1) have g: "Map_get (messageAggregation ?l1) ?k = None"
    by (auto simp: Map_get_def map_of_eq_None_iff filter_empty_conv image_iff)
  have 2: "filter (\<lambda>p. fst p = ?k) (messageAggregation ?l2) = [(?k, ?d)]"
    "lastAggregationCleanup ?l2 = lastAggregationCleanup l"
    "snd (limiter_step (Log now lvl message args) ?l1) = []"
    using assms(1) g 1(1,2)
    by (simp_all add: noisy_log aggregateMessage_def Let_def Map_set_absent)
  from other_run[OF assms(1) a, of ?l2] 2
  have 3: "filter (\<lambda>p. fst p = ?k) (messageAggregation ?l3) = [(?k, ?d)]"
    "lastAggregationCleanup ?l3 = lastAggregationCleanup l"
    "\<forall>x \<in> set (snd (limiter_run later ?l2)). \<not> mentions message ?k x"
    by simp_all
  from assms(4) 3(2) have w: "aggregationWindowMs \<le> t - lastAggregationCleanup ?l3" by simp
  have 4: "\<forall>x \<in> set (snd (report_tick t ?l3)). \<not> mentions message ?k x"
    "messageAggregation (fst (report_tick t ?l3)) = []"
    using tick_output[OF w 3(1)] by simp_all
  have out: "snd (limiter_run (earlier @ [Log now lvl message args] @ later @ [Tick t]) l)
      = snd (limiter_run earlier l) @ snd (limiter_step (Log now lvl message args) ?l1)
        @ snd (limiter_run later ?l2) @ snd (report_tick t ?l3)"
    by (simp add: snd_limiter_run_append fst_limiter_run_append case_prod_beta)
  have st: "fst (limiter_run (earlier @ [Log now lvl message args] @ later @ [Tick t]) l)
      = fst (report_tick t ?l3)"
    by (simp add: fst_limiter_run_append case_prod_beta)
  have "snd (log now lvl message args ?l1) = []" using assms(1) by (simp add: noisy_log)
  moreover have "\<forall>x \<in> set (snd (limiter_run
                 (earlier @ [Log now lvl message args] @ later @ [Tick t]) l)).
            \<not> mentions message ?k x"
    unfolding out using 1(3) 2(3) 3(3) 4(1) by auto
  moreover have "messageAggregation (fst (limiter_run
                 (earlier @ [Log now lvl message args] @ later @ [Tick t]) l)) = []"
    unfolding st by (rule 4(2))
  ultimately show ?thesis by blast
qed

theorem single_occurrence_witness:
  "shouldAggregate ''health check failed'' \<and>
   Map_get (messageAggregation (new_LogRateLimiter 0 None))
      (getAggregationKey ''health check failed'') = None \<and>
   list_all (\<lambda>c. \<not> is_tick c \<and> \<not> is_noisy_log (getAggregationKey ''health check failed'') c)
      ([Log 1 INFO ''starting'' []] @ [Log 3 WARN ''participant connected: 4'' []]) \<and>
   aggregationWindowMs \<le> 60000 - lastAggregationCleanup (new_LogRateLimiter 0 None) \<and>
   list_all (\<lambda>x. \<not> mentions ''health check failed''
                     (getAggregationKey ''health check failed'') x)
      (snd (limiter_run one_window (new_LogRateLimiter 0 None))) \<and>
   snd (limiter_run one_window (new_LogRateLimiter 0 None))
     = [(ConsoleInfo, Direct INFO ''starting'' [])]"
proof -
  have a: "shouldAggregate ''health check failed''" by (simp add: pattern_defs)
  have k: "getAggregationKey ''health check failed'' = ''health check failed''"
    by (simp add: key_defs)
  have k2: "getAggregationKey ''participant connected: 4'' = ''participant connected: N''"
    by (simp add: key_defs)
  have n: "\<not> shouldAggregate ''starting''" by (simp add: pattern_defs)
  have p: "shouldAggregate ''participant connected: 4''" by (simp add: pattern_defs)
  have g: "Map_get (messageAggregation (new_LogRateLimiter 0 None))
      (getAggregationKey ''health check failed'') = None"
    by (simp add: new_LogRateLimiter_def Let_def Map_get_def)
  have o: "\<forall>c \<in> set ([Log 1 INFO ''starting'' []] @ [Log 3 WARN ''participant connected: 4'' []]).
      \<not> is_tick c \<and> \<not> is_noisy_log (getAggregationKey ''health check failed'') c"
    using n k k2 by simp
  have w: "aggregationWindowMs \<le> 60000 - lastAggregationCleanup (new_LogRateLimiter 0 None)"
    by (simp add: new_LogRateLimiter_def Let_def aggregationWindowMs_def)
  have c: "\<forall>x \<in> set (snd (limiter_run one_window (new_LogRateLimiter 0 None))).
      \<not> mentions ''health check failed'' (getAggregationKey ''health check failed'') x"
    using single_occurrence_never_emitted[OF a g o w, of 2 ERROR "[]"]
    unfolding one_window_def by blast
  have v: "snd (limiter_run one_window (new_LogRateLimiter 0 None))
     = [(ConsoleInfo, Direct INFO ''starting'' [])]"
    using a n p k k2
    by (simp add: one_window_def limiter_defs case_prod_beta report_tick_def
        flushAggregatedMessages_def summary_lines_def aggregationWindowMs_def
        droppedReportIntervalMs_def number_simps)
  from a g o w c v show ?thesis unfolding list_all_iff by blast
qed


text \<open>
  C10, as stated: an ERROR-level, non-aggregated message logged while the bucket holds
  less than one token leaves all limiter state other than the refill timestamp unchanged.
  The refill that precedes the test also adds the tokens earned since the last refill:
  half a second after the only token of a rate-1 limiter was spent, the call leaves half a
  token in the bucket.
\<close>

theorem error_refill_changes_tokens:
  "\<not> shouldAggregate ''boom'' \<and> tokens drained < 1 \<and>
   tokens (fst (log 500 ERROR ''boom'' [] drained)) = Num (1 / 2) \<and>
   fst (log 500 ERROR ''boom'' [] drained) \<noteq> drained\<lparr>lastRefillTime := 500\<rparr>"
proof -
  have h: "\<not> shouldAggregate ''boom''" by (simp add: pattern_defs)
  have a: "\<not> shouldAggregate ''a''" by (simp add: pattern_defs)
  have d: "tokens drained = Num 0" "maxLogsPerSecond drained = Num 1"
    "bucketSize drained = Num 1" "lastRefillTime drained = 0"
    using a by (simp_all add: drained_def limiter_defs number_simps)
  have t: "tokens (fst (log 500 ERROR ''boom'' [] drained)) = Num (1 / 2)"
    using h d by (simp add: log_def shouldLog_def refillTokens_def Let_def number_simps)
  have "tokens (drained\<lparr>lastRefillTime := 500\<rparr>) = Num 0" using d by simp
  with t have "fst (log 500 ERROR ''boom'' [] drained) \<noteq> drained\<lparr>lastRefillTime := 500\<rparr>"
    by auto
  with h d t show ?thesis by (simp add: number_simps)
qed

text \<open>
  C10, amended: when an ERROR-level, non-aggregated message is logged and the bucket
  holds less than one token after the refill, the message is admitted without consuming a
  token; the call changes nothing but the token count, which the refill sets to
  \<open>min bucketSize (tokens + elapsed \<times> rate)\<close>, and the refill timestamp. The dropped
  counters and the aggregation table are untouched.
\<close>

theorem error_admitted_without_token:
  assumes "\<not> shouldAggregate message" and "tokens (refillTokens now l) < 1"
  shows "log now ERROR message args l
           = (l\<lparr>tokens := Math_min (bucketSize l)
                   (tokens l
                      + Num (rat_of_int (now - lastRefillTime l) / 1000) * maxLogsPerSecond l),
                 lastRefillTime := now\<rparr>,
              [(ConsoleError, Direct ERROR message args)]) \<and>
         droppedCount (fst (log now ERROR message args l)) = droppedCount l \<and>
         droppedByLevel (fst (log now ERROR message args l)) = droppedByLevel l \<and>
         messageAggregation (fst (log now ERROR message args l)) = messageAggregation l"
proof -
  from assms(2) have n: "\<not> 1 \<le> tokens (refillTokens now l)" by (rule less_one_number)
  have "log now ERROR message args l
          = (refillTokens now l, [(ConsoleError, Direct ERROR message args)])"
    using assms(1) n by (simp add: log_def shouldLog_def Let_def)
  then show ?thesis by (simp add: refillTokens_def Let_def)
qed

theorem error_admitted_without_token_witness:
  "\<not> shouldAggregate ''boom'' \<and> tokens (refillTokens 500 drained) < 1 \<and>
   log 500 ERROR ''boom'' [] drained
     = (drained\<lparr>tokens := Num (1 / 2), lastRefillTime := 500\<rparr>,
        [(ConsoleError, Direct ERROR ''boom'' [])]) \<and>
   droppedCount (fst (log 500 ERROR ''boom'' [] drained)) = 0"
proof -
  have h: "\<not> shouldAggregate ''boom''" by (simp add: pattern_defs)
  have a: "\<not> shouldAggregate ''a''" by (simp add: pattern_defs)
  have d: "tokens drained = Num 0" "maxLogsPerSecond drained = Num 1"
    "bucketSize drained = Num 1" "lastRefillTime drained = 0" "droppedCount drained = 0"
    using a by (simp_all add: drained_def limiter_defs number_simps)
  have r: "tokens (refillTokens 500 drained) < 1"
    using d by (simp add: refillTokens_def Let_def number_simps)
  from error_admitted_without_token[OF h r, of "[]"] h r d
  show ?thesis by (simp add: number_simps)
qed

end
